theory Spec2Isabelle
  imports Main "HOL-Library.AList"
begin

section \<open>Values, errors and hook entries\<close>

text \<open>
  The kernel of \<^verbatim>\<open>packages/taro-service/src/Kernel.ts\<close> handles untyped JavaScript
  values (\<^verbatim>\<open>any\<close>): the seed value and the options of a hook chain, what handlers
  return, the options of a run.  They are modelled by a small value type; numbers are
  integers, objects are association lists in property order.
\<close>

datatype jsval =
    Undefined
  | Null
  | Bool bool
  | Num int
  | Str string
  | Arr "jsval list"
  | Obj "(string \<times> jsval) list"

text \<open>
  Every \<^verbatim>\<open>throw\<close> of the source and every failure of user code is a value:
  \<^item> \<open>PluginRegistered id\<close>: \<^verbatim>\<open>registerPlugin\<close>, line 147;
  \<^item> \<open>InvalidName\<close>: \<^verbatim>\<open>applyPlugins\<close>, line 182;
  \<^item> \<open>PlatformNotFound p\<close>: \<^verbatim>\<open>runWithPlatform\<close>, line 205;
  \<^item> \<open>CommandNotFound n\<close>: \<^verbatim>\<open>run\<close>, line 223;
  \<^item> \<open>TypeError\<close>: a property read on \<^verbatim>\<open>undefined\<close> or \<^verbatim>\<open>null\<close>, a non-string
    handed to \<^verbatim>\<open>path.join\<close>;
  \<^item> \<open>Thrown v\<close>: a setup function or a hook handler threw (or rejected with) \<open>v\<close>.
\<close>

datatype error =
    PluginRegistered string
  | InvalidName
  | PlatformNotFound jsval
  | CommandNotFound jsval
  | TypeError
  | Thrown jsval

text \<open>
  \<^verbatim>\<open>IHook\<close>: the entry of a hook chain.  \<open>fn\<close> is the handler, called as
  \<^verbatim>\<open>hook.fn(arg, opts)\<close> and awaited; a rejection or a throw is \<open>Inl\<close>.  A handler is
  modelled by the value it resolves to or the error it fails with; what it may do to the
  kernel besides is not part of the model.  \<open>stage\<close> is optional; \<open>before\<close> is a string
  or an array of strings in the source, here the list of those names (empty when absent).
\<close>

record ihook =
  name :: string
  plugin :: string
  fn :: "jsval \<Rightarrow> jsval \<Rightarrow> error + jsval"
  stage :: "int option"
  before :: "string list"

section \<open>The waterfall hook of tapable\<close>

text \<open>
  The options object of a tap, \<^verbatim>\<open>{ name, stage, before }\<close>, with its callback.  The
  callback of \<^verbatim>\<open>applyPlugins\<close> is a closure over one hook entry; \<open>tfn\<close> holds what the
  closure captures and the runner below is given the closure's body.
\<close>

record 'f tap =
  tname :: string
  tstage :: int
  tbefore :: "string list"
  tfn :: 'f

text \<open>
  Modelled from the spec: \<^verbatim>\<open>AsyncSeriesWaterfallHook\<close> is imported from the package
  \<^verbatim>\<open>tapable\<close>, which is not under src/.  Section 4.4 of the specification asks for
  one fixed total order per chain: ascending stage, then registration order within equal
  stage, with \<open>before\<close> constraints taking precedence.  \<open>insert_back\<close> is that
  insertion as tapable performs it, walking the taps from the last one towards the first:
  a tap named in \<open>before\<close> is stepped over (and struck from the set), any tap is stepped
  over while names remain, then every tap of a greater stage; the new tap lands behind
  the first tap that stops the walk.
\<close>

fun insert_back :: "'f tap \<Rightarrow> string list \<Rightarrow> 'f tap list \<Rightarrow> 'f tap list" where
  "insert_back item b [] = [item]"
| "insert_back item b (x # xs) =
     (if tname x \<in> set b then x # insert_back item (removeAll (tname x) b) xs
      else if b \<noteq> [] then x # insert_back item b xs
      else if tstage x > tstage item then x # insert_back item b xs
      else item # x # xs)"

definition tapPromise :: "'f tap \<Rightarrow> 'f tap list \<Rightarrow> 'f tap list" where
  "tapPromise item taps = rev (insert_back item (tbefore item) (rev taps))"

text \<open>
  Modelled from the spec: \<^verbatim>\<open>waterfall.promise(initialVal)\<close> of tapable, not under
  src/.  The taps run strictly one after the other (specification, sections 4.4 and 5);
  each is called with the current value, a failure ends the run with that failure, and
  a result other than \<^verbatim>\<open>undefined\<close> becomes the current value.  With no tap the
  promise resolves to the initial value.  \<open>call\<close> is the body of the callbacks, which
  may update captured state \<open>'s\<close>.
\<close>

fun promise ::
  "('f \<Rightarrow> jsval \<Rightarrow> 's \<Rightarrow> (error + jsval) \<times> 's) \<Rightarrow> 'f tap list \<Rightarrow> jsval \<Rightarrow> 's
    \<Rightarrow> (error + jsval) \<times> 's" where
  "promise call [] v s = (Inr v, s)"
| "promise call (t # ts) v s =
     (case call (tfn t) v s of
        (Inl e, s') \<Rightarrow> (Inl e, s')
      | (Inr r, s') \<Rightarrow> promise call ts (if r \<noteq> Undefined then r else v) s')"

section \<open>The state of the kernel\<close>

text \<open>
  \<^verbatim>\<open>ICommand\<close> and \<^verbatim>\<open>IPlatform\<close> (declared in \<^verbatim>\<open>utils/types\<close>): the kernel reads
  only the keys of the two maps and \<^verbatim>\<open>useConfigName\<close>.
\<close>

record icommand =
  cname :: string

record iplatform =
  pname :: string
  useConfigName :: string

text \<open>
  The four registries of the class \<^verbatim>\<open>Kernel\<close> that plugin code writes through its
  context: \<^verbatim>\<open>hooks\<close>, \<^verbatim>\<open>methods\<close>, \<^verbatim>\<open>commands\<close>, \<^verbatim>\<open>platforms\<close>.  Of \<^verbatim>\<open>methods\<close>
  the kernel uses the keys only; they are kept in insertion order.
\<close>

record regs =
  hooks :: "string \<rightharpoonup> ihook list"
  methods :: "string list"
  commands :: "string \<rightharpoonup> icommand"
  platforms :: "string \<rightharpoonup> iplatform"

text \<open>
  \<^verbatim>\<open>IPlugin\<close> / \<^verbatim>\<open>IPreset\<close>: a resolved declaration \<^verbatim>\<open>{ id, path, opts, apply }\<close>.
  \<open>apply_fn\<close> is \<^verbatim>\<open>apply()(pluginCtx, opts)\<close>, the setup function of the module: user
  code that reads and writes the registries through the context and may throw (then the
  error comes with the registries as the throw left them).  What a preset's setup
  function returns, \<^verbatim>\<open>{ presets, plugins }\<close>, is given resolved: \<open>sub_presets\<close> and
  \<open>sub_plugins\<close> are the lists that \<^verbatim>\<open>resolvePresetsOrPlugins(convertPluginsToObject(...))\<close>
  (both in \<^verbatim>\<open>utils\<close>, not under src/) makes of them, \<open>None\<close> where the setup function
  returned no array.  The tree of declarations is finite.
\<close>

datatype iplugin =
  IPlugin (plugin_id: string) (plugin_path: string) (plugin_opts: jsval)
    (apply_fn: "regs \<Rightarrow> error option \<times> regs")
    (sub_presets: "iplugin list option") (sub_plugins: "iplugin list option")

text \<open>
  \<^verbatim>\<open>Config\<close> (not under src/): the kernel reads \<^verbatim>\<open>initialConfig\<close> and
  \<^verbatim>\<open>configPath\<close> and calls \<^verbatim>\<open>getConfigWithNamed\<close>.
\<close>

record config =
  cfg_initialConfig :: jsval
  configPath :: string
  getConfigWithNamed :: "string \<Rightarrow> string \<Rightarrow> jsval"

text \<open>
  The calls into user code, in the order they happen: \<open>Setup i\<close> when the setup function
  of the item with id \<open>i\<close> is invoked, \<open>HookCall h arg opts\<close> when the handler of the
  entry \<open>h\<close> is invoked with \<open>(arg, opts)\<close>.  The trace is not a field of the class; it
  records what the claims about order speak of.
\<close>

datatype event = Setup string | HookCall ihook jsval jsval

record kernel = regs +
  appPath :: string
  isWatch :: bool
  isProduction :: bool
  optsPresets :: jsval
  optsPlugins :: jsval
  plugins :: "(string \<times> iplugin) list"
  paths :: jsval
  extraPlugins :: "iplugin list"
  config :: "config option"
  initialConfig :: jsval
  trace :: "event list"

datatype PluginType = Preset | Plugin

text \<open>
  What the kernel calls and src/ does not hold: the constructor of \<^verbatim>\<open>Config\<close>,
  \<^verbatim>\<open>path.join\<close> of Node (on two strings), \<^verbatim>\<open>mergePlugins\<close> and
  \<^verbatim>\<open>resolvePresetsOrPlugins\<close> of \<^verbatim>\<open>utils\<close>, \<^verbatim>\<open>process.cwd()\<close>.  They are parameters
  of the model.  \<^verbatim>\<open>createBabelRegister\<close> changes nothing in the kernel and is left out.
\<close>

record ext =
  newConfig :: "string \<Rightarrow> bool \<Rightarrow> bool \<Rightarrow> config"
  path_join :: "string \<Rightarrow> string \<Rightarrow> string"
  mergePlugins :: "jsval \<Rightarrow> jsval \<Rightarrow> PluginType \<Rightarrow> jsval"
  resolvePresetsOrPlugins :: "jsval \<Rightarrow> PluginType \<Rightarrow> iplugin list"
  cwd :: string

record IKernelOptions =
  o_appPath :: string
  o_isWatch :: bool
  o_isProduction :: bool
  o_presets :: jsval
  o_plugins :: jsval

text \<open>
  The constructor, lines 47 to 58.  The fields it leaves unassigned (\<^verbatim>\<open>plugins\<close>,
  \<^verbatim>\<open>extraPlugins\<close>, \<^verbatim>\<open>config\<close>, \<^verbatim>\<open>initialConfig\<close>, \<^verbatim>\<open>paths\<close>) start empty.
\<close>

definition constructor :: "ext \<Rightarrow> IKernelOptions \<Rightarrow> kernel" where
  "constructor X options =
     \<lparr> hooks = Map.empty, methods = [], commands = Map.empty, platforms = Map.empty,
       appPath = (if o_appPath options \<noteq> [] then o_appPath options else cwd X),
       isWatch = o_isWatch options,
       isProduction = o_isProduction options,
       optsPresets = o_presets options,
       optsPlugins = o_plugins options,
       plugins = [], paths = Undefined, extraPlugins = [], config = None,
       initialConfig = Undefined, trace = [] \<rparr>"

section \<open>JavaScript operators the kernel uses\<close>

text \<open>Truthiness, as \<^verbatim>\<open>||\<close> and \<^verbatim>\<open>if\<close> test it.\<close>

fun truthy :: "jsval \<Rightarrow> bool" where
  "truthy Undefined = False"
| "truthy Null = False"
| "truthy (Bool b) = b"
| "truthy (Num n) = (n \<noteq> 0)"
| "truthy (Str s) = (s \<noteq> [])"
| "truthy (Arr xs) = True"
| "truthy (Obj ps) = True"

definition or_else :: "jsval \<Rightarrow> jsval \<Rightarrow> jsval" where
  "or_else a b = (if truthy a then a else b)"

text \<open>
  A property read \<^verbatim>\<open>v.p\<close>: a \<^verbatim>\<open>TypeError\<close> on \<^verbatim>\<open>undefined\<close> and \<^verbatim>\<open>null\<close>, the own
  property of an object, \<^verbatim>\<open>undefined\<close> on the other values (for the property names
  the kernel reads: \<^verbatim>\<open>platform\<close>, \<^verbatim>\<open>presets\<close>, \<^verbatim>\<open>plugins\<close>, \<^verbatim>\<open>sourceRoot\<close>,
  \<^verbatim>\<open>outputRoot\<close>, \<^verbatim>\<open>babel\<close>).
\<close>

fun get_prop :: "jsval \<Rightarrow> string \<Rightarrow> error + jsval" where
  "get_prop Undefined p = Inl TypeError"
| "get_prop Null p = Inl TypeError"
| "get_prop (Obj ps) p = Inr (case map_of ps p of None \<Rightarrow> Undefined | Some v \<Rightarrow> v)"
| "get_prop v p = Inr Undefined"

text \<open>An assignment \<^verbatim>\<open>v.p = x\<close> on an object; on a primitive it has no effect.\<close>

fun set_prop :: "jsval \<Rightarrow> string \<Rightarrow> jsval \<Rightarrow> jsval" where
  "set_prop (Obj ps) p x = Obj (AList.update p x ps)"
| "set_prop v p x = v"

section \<open>Running a hook chain\<close>

text \<open>\<^verbatim>\<open>this.hooks.get(name) || []\<close>, line 184.\<close>

definition hooks_get :: "'a regs_scheme \<Rightarrow> string \<Rightarrow> ihook list" where
  "hooks_get k n = (case hooks k n of None \<Rightarrow> [] | Some hs \<Rightarrow> hs)"

text \<open>
  The callback tapped for one hook, lines 193 to 197.  The captured state is \<^verbatim>\<open>resArr\<close>
  (with the trace): the handler is called with the value the waterfall hands over and
  with \<^verbatim>\<open>opts\<close>, its result is pushed on \<^verbatim>\<open>resArr\<close>, and \<^verbatim>\<open>resArr\<close> is returned.
\<close>

definition callback ::
  "jsval \<Rightarrow> ihook \<Rightarrow> jsval \<Rightarrow> jsval list \<times> event list
    \<Rightarrow> (error + jsval) \<times> jsval list \<times> event list" where
  "callback opts hook arg s =
     (case s of (resArr, evs) \<Rightarrow>
        (case fn hook arg opts of
           Inl e \<Rightarrow> (Inl e, (resArr, evs @ [HookCall hook arg opts]))
         | Inr res \<Rightarrow>
             (Inr (Arr (resArr @ [res])), (resArr @ [res], evs @ [HookCall hook arg opts]))))"

text \<open>The tap made for one hook entry, lines 189 to 192.\<close>

definition tap_of :: "ihook \<Rightarrow> ihook tap" where
  "tap_of hook =
     \<lparr> tname = plugin hook,
       tstage = (case stage hook of None \<Rightarrow> 0 | Some s \<Rightarrow> if s \<noteq> 0 then s else 0),
       tbefore = before hook,
       tfn = hook \<rparr>"

text \<open>The loop of lines 186 to 199: the taps of a chain, in the order they will run.\<close>

definition taps_of :: "ihook list \<Rightarrow> ihook tap list" where
  "taps_of hs = (if hs \<noteq> [] then foldl (\<lambda>w hook. tapPromise (tap_of hook) w) [] hs else [])"

text \<open>
  The argument of \<^verbatim>\<open>applyPlugins\<close>: a string, or \<^verbatim>\<open>{ name, initialVal, opts }\<close> (an
  absent field is \<^verbatim>\<open>undefined\<close>).
\<close>

datatype apply_args = ArgName string | ArgObj jsval jsval jsval

text \<open>\<^verbatim>\<open>applyPlugins\<close>, lines 170 to 201.\<close>

definition applyPlugins :: "apply_args \<Rightarrow> kernel \<Rightarrow> (error + jsval) \<times> kernel" where
  "applyPlugins args k =
     (case (case args of
              ArgName s \<Rightarrow> (Str s, Undefined, Undefined)
            | ArgObj n i opt \<Rightarrow> (n, i, opt)) of
        (Str n, initialVal, opts) \<Rightarrow>
          (case promise (callback opts) (taps_of (hooks_get k n)) initialVal ([], []) of
             (r, (resArr, evs)) \<Rightarrow> (r, k\<lparr>trace := trace k @ evs\<rparr>))
      | (_, initialVal, opts) \<Rightarrow> (Inl InvalidName, k))"

section \<open>Resolving presets and plugins\<close>

text \<open>
  \<^verbatim>\<open>registerPlugin\<close>, lines 145 to 150.  \<^verbatim>\<open>plugins\<close> is a \<^verbatim>\<open>Map\<close>: the association
  list keeps its insertion order, and \<^verbatim>\<open>set\<close> on an absent key appends.
\<close>

definition registerPlugin :: "iplugin \<Rightarrow> kernel \<Rightarrow> error option \<times> kernel" where
  "registerPlugin p k =
     (if plugin_id p \<in> fst ` set (plugins k) then (Some (PluginRegistered (plugin_id p)), k)
      else (None, k\<lparr>plugins := AList.update (plugin_id p) p (plugins k)\<rparr>))"

text \<open>
  Modelled from the spec: \<^verbatim>\<open>registerMethod\<close> of the class \<^verbatim>\<open>Plugin\<close> (\<^verbatim>\<open>Plugin.ts\<close>,
  not under src/).  Section 4.3: it grafts a new named method onto the kernel, which is
  then visible on every context built later.
\<close>

definition registerMethod :: "string \<Rightarrow> kernel \<Rightarrow> kernel" where
  "registerMethod n k = k\<lparr>methods := methods k @ [n]\<rparr>"

text \<open>
  \<^verbatim>\<open>initPluginCtx\<close>, lines 152 to 168.  What it does to the kernel is to register the
  two internal methods when they are absent; the context it returns is the window on the
  registries that \<open>apply_fn\<close> works on.
\<close>

definition initPluginCtx :: "kernel \<Rightarrow> kernel" where
  "initPluginCtx k =
     foldl (\<lambda>k n. if n \<notin> set (methods k) then registerMethod n k else k) k
       [''onReady'', ''onStart'']"

text \<open>
  The call \<^verbatim>\<open>apply()(pluginCtx, opts)\<close> of lines 125 and 142: the setup function runs
  on the registries, and the call is recorded in the trace.
\<close>

definition call_apply :: "iplugin \<Rightarrow> kernel \<Rightarrow> error option \<times> kernel" where
  "call_apply p k =
     (case apply_fn p (regs.truncate k) of
        (e, r) \<Rightarrow>
          (e, k\<lparr>hooks := hooks r, methods := methods r, commands := commands r,
                platforms := platforms r, trace := trace k @ [Setup (plugin_id p)]\<rparr>))"

text \<open>
  \<^verbatim>\<open>initPreset\<close>, lines 122 to 136, with the loop
  \<^verbatim>\<open>while (q.length) { this.initPreset(q.shift()) }\<close> of lines 108 to 110 and 129 to 131.
\<close>

fun initPreset :: "iplugin \<Rightarrow> kernel \<Rightarrow> error option \<times> kernel"
  and initPresets :: "iplugin list \<Rightarrow> kernel \<Rightarrow> error option \<times> kernel" where
  "initPreset (IPlugin i pa opt ap ps qs) k =
     (case call_apply (IPlugin i pa opt ap ps qs) (initPluginCtx k) of
        (Some e, k1) \<Rightarrow> (Some e, k1)
      | (None, k1) \<Rightarrow>
          (case registerPlugin (IPlugin i pa opt ap ps qs) k1 of
             (Some e, k2) \<Rightarrow> (Some e, k2)
           | (None, k2) \<Rightarrow>
               (case (case ps of None \<Rightarrow> (None, k2) | Some l \<Rightarrow> initPresets l k2) of
                  (Some e, k3) \<Rightarrow> (Some e, k3)
                | (None, k3) \<Rightarrow>
                    (None, (case qs of
                              None \<Rightarrow> k3
                            | Some l \<Rightarrow> k3\<lparr>extraPlugins := extraPlugins k3 @ l\<rparr>)))))"
| "initPresets [] k = (None, k)"
| "initPresets (p # ps) k =
     (case initPreset p k of
        (Some e, k1) \<Rightarrow> (Some e, k1)
      | (None, k1) \<Rightarrow> initPresets ps k1)"

text \<open>\<^verbatim>\<open>resolvePresets\<close>, lines 106 to 111.\<close>

definition resolvePresets :: "ext \<Rightarrow> jsval \<Rightarrow> kernel \<Rightarrow> error option \<times> kernel" where
  "resolvePresets X presets k = initPresets (resolvePresetsOrPlugins X presets Preset) k"

text \<open>\<^verbatim>\<open>initPlugin\<close>, lines 138 to 143.\<close>

definition initPlugin :: "iplugin \<Rightarrow> kernel \<Rightarrow> error option \<times> kernel" where
  "initPlugin p k =
     (case registerPlugin p (initPluginCtx k) of
        (Some e, k1) \<Rightarrow> (Some e, k1)
      | (None, k1) \<Rightarrow> call_apply p k1)"

text \<open>The loop \<^verbatim>\<open>while (_plugins.length) { this.initPlugin(_plugins.shift()) }\<close>.\<close>

fun initPlugins :: "iplugin list \<Rightarrow> kernel \<Rightarrow> error option \<times> kernel" where
  "initPlugins [] k = (None, k)"
| "initPlugins (p # ps) k =
     (case initPlugin p k of
        (Some e, k1) \<Rightarrow> (Some e, k1)
      | (None, k1) \<Rightarrow> initPlugins ps k1)"

text \<open>\<^verbatim>\<open>resolvePlugins\<close>, lines 113 to 120.\<close>

definition resolvePlugins :: "ext \<Rightarrow> jsval \<Rightarrow> kernel \<Rightarrow> error option \<times> kernel" where
  "resolvePlugins X plugins' k =
     (case initPlugins (extraPlugins k @ resolvePresetsOrPlugins X plugins' Plugin) k of
        (Some e, k1) \<Rightarrow> (Some e, k1)
      | (None, k1) \<Rightarrow> (None, k1\<lparr>extraPlugins := []\<rparr>))"

text \<open>
  \<^verbatim>\<open>initPresetsAndPlugins\<close>, lines 91 to 104.  The reads \<^verbatim>\<open>initialConfig.presets\<close> and
  \<^verbatim>\<open>initialConfig.plugins\<close> fail on an \<^verbatim>\<open>initialConfig\<close> that is \<^verbatim>\<open>undefined\<close>.
\<close>

definition initPresetsAndPlugins :: "ext \<Rightarrow> kernel \<Rightarrow> error option \<times> kernel" where
  "initPresetsAndPlugins X k =
     (case get_prop (initialConfig k) ''presets'' of
        Inl e \<Rightarrow> (Some e, k)
      | Inr cpresets \<Rightarrow>
          (case get_prop (initialConfig k) ''plugins'' of
             Inl e \<Rightarrow> (Some e, k)
           | Inr cplugins \<Rightarrow>
               (let allConfigPresets =
                      mergePlugins X (or_else (optsPresets k) (Arr [])) (or_else cpresets (Arr []))
                        Preset;
                    allConfigPlugins =
                      mergePlugins X (or_else (optsPlugins k) (Arr [])) (or_else cplugins (Arr []))
                        Plugin
                in case resolvePresets X allConfigPresets (k\<lparr>plugins := [], extraPlugins := []\<rparr>) of
                     (Some e, k1) \<Rightarrow> (Some e, k1)
                   | (None, k1) \<Rightarrow> resolvePlugins X allConfigPlugins k1)))"

section \<open>init and run\<close>

text \<open>\<^verbatim>\<open>initConfig\<close>, lines 67 to 77.\<close>

definition initConfig :: "ext \<Rightarrow> kernel \<Rightarrow> error option \<times> kernel" where
  "initConfig X k =
     (let c = newConfig X (appPath k) (isWatch k) (isProduction k);
          k0 = k\<lparr>config := Some c\<rparr>
      in case applyPlugins (ArgObj (Str ''modifyConfig'') (cfg_initialConfig c) Undefined) k0 of
           (Inl e, k1) \<Rightarrow> (Some e, k1)
         | (Inr v, k1) \<Rightarrow> (None, k1\<lparr>initialConfig := v\<rparr>))"

text \<open>
  \<^verbatim>\<open>initPaths\<close>, lines 79 to 89.  \<^verbatim>\<open>path.join\<close> throws a \<^verbatim>\<open>TypeError\<close> on an argument
  that is not a string.
\<close>

definition initPaths :: "ext \<Rightarrow> kernel \<Rightarrow> error option \<times> kernel" where
  "initPaths X k =
     (case config k of
        None \<Rightarrow> (Some TypeError, k)
      | Some c \<Rightarrow>
          (case get_prop (initialConfig k) ''sourceRoot'' of
             Inr (Str sourceRoot) \<Rightarrow>
               (case get_prop (initialConfig k) ''outputRoot'' of
                  Inr (Str outputRoot) \<Rightarrow>
                    (case applyPlugins
                            (ArgObj (Str ''modifyPaths'')
                               (Obj [(''appPath'', Str (appPath k)),
                                     (''configPath'', Str (configPath c)),
                                     (''sourcePath'', Str (path_join X (appPath k) sourceRoot)),
                                     (''outputPath'', Str (path_join X (appPath k) outputRoot))])
                               Undefined) k of
                       (Inl e, k1) \<Rightarrow> (Some e, k1)
                     | (Inr v, k1) \<Rightarrow> (None, k1\<lparr>paths := v\<rparr>))
                | _ \<Rightarrow> (Some TypeError, k))
           | _ \<Rightarrow> (Some TypeError, k)))"

text \<open>\<^verbatim>\<open>init\<close>, lines 60 to 65.\<close>

definition init :: "ext \<Rightarrow> kernel \<Rightarrow> error option \<times> kernel" where
  "init X k =
     (case initConfig X k of
        (Some e, k1) \<Rightarrow> (Some e, k1)
      | (None, k1) \<Rightarrow>
          (case initPaths X k1 of
             (Some e, k2) \<Rightarrow> (Some e, k2)
           | (None, k2) \<Rightarrow>
               (case initPresetsAndPlugins X k2 of
                  (Some e, k3) \<Rightarrow> (Some e, k3)
                | (None, k3) \<Rightarrow>
                    (case applyPlugins (ArgName ''onReady'') k3 of
                       (Inl e, k4) \<Rightarrow> (Some e, k4)
                     | (Inr v, k4) \<Rightarrow> (None, k4)))))"

text \<open>
  \<^verbatim>\<open>runWithPlatform\<close>, lines 203 to 209.  The keys of \<^verbatim>\<open>platforms\<close> are strings, so
  \<^verbatim>\<open>has\<close> is false on any other value.
\<close>

definition runWithPlatform :: "jsval \<Rightarrow> kernel \<Rightarrow> error + jsval" where
  "runWithPlatform platform k =
     (case platform of
        Str s \<Rightarrow>
          (case platforms k s of
             None \<Rightarrow> Inl (PlatformNotFound platform)
           | Some pf \<Rightarrow>
               (case config k of
                  None \<Rightarrow> Inl TypeError
                | Some c \<Rightarrow> Inr (getConfigWithNamed c s (useConfigName pf))))
      | _ \<Rightarrow> Inl (PlatformNotFound platform))"

text \<open>\<^verbatim>\<open>this.commands.has(name)\<close>, line 222.\<close>

definition commands_has :: "kernel \<Rightarrow> jsval \<Rightarrow> bool" where
  "commands_has k n = (case n of Str s \<Rightarrow> commands k s \<noteq> None | _ \<Rightarrow> False)"

text \<open>The argument of \<^verbatim>\<open>run\<close>: a string, or \<^verbatim>\<open>{ name, opts }\<close>.\<close>

datatype run_args = RunName string | RunObj jsval jsval

text \<open>\<^verbatim>\<open>run\<close>, lines 211 to 232.\<close>

definition run :: "ext \<Rightarrow> run_args \<Rightarrow> kernel \<Rightarrow> error option \<times> kernel" where
  "run X args k =
     (case (case args of RunName s \<Rightarrow> (Str s, Undefined) | RunObj n opt \<Rightarrow> (n, opt)) of
        (name', opts) \<Rightarrow>
          (case init X k of
             (Some e, k1) \<Rightarrow> (Some e, k1)
           | (None, k1) \<Rightarrow>
               (case applyPlugins (ArgName ''onStart'') k1 of
                  (Inl e, k2) \<Rightarrow> (Some e, k2)
                | (Inr v, k2) \<Rightarrow>
                    if \<not> commands_has k2 name' then (Some (CommandNotFound name'), k2)
                    else
                      (case get_prop opts ''platform'' of
                         Inl e \<Rightarrow> (Some e, k2)
                       | Inr platform \<Rightarrow>
                           (case (if truthy platform
                                  then (case runWithPlatform platform k2 of
                                          Inl e \<Rightarrow> Inl e
                                        | Inr c \<Rightarrow> Inr (set_prop opts ''config'' c))
                                  else Inr opts) of
                              Inl e \<Rightarrow> (Some e, k2)
                            | Inr opts' \<Rightarrow>
                                (case applyPlugins (ArgObj name' Undefined opts') k2 of
                                   (Inl e, k3) \<Rightarrow> (Some e, k3)
                                 | (Inr v, k3) \<Rightarrow> (None, k3)))))))"

section \<open>Notions used to state the properties\<close>

text \<open>The hook entries whose handlers a trace calls, and the ids whose setup functions it runs.\<close>

fun called :: "event list \<Rightarrow> ihook list" where
  "called [] = []"
| "called (Setup i # es) = called es"
| "called (HookCall h a opts # es) = h # called es"

fun setups :: "event list \<Rightarrow> string list" where
  "setups [] = []"
| "setups (Setup i # es) = i # setups es"
| "setups (HookCall h a opts # es) = setups es"

text \<open>The stage a hook entry is tapped with: \<^verbatim>\<open>hook.stage || 0\<close>.\<close>

definition stage_of :: "ihook \<Rightarrow> int" where
  "stage_of h = (case stage h of None \<Rightarrow> 0 | Some s \<Rightarrow> s)"


text \<open>
  The presets of a declaration tree in depth-first order, a preset before the presets it
  declares; and the plugins that presets declare, in the order they are pushed on
  \<^verbatim>\<open>extraPlugins\<close> (those of the nested presets before the preset's own).
\<close>

fun preorder :: "iplugin \<Rightarrow> iplugin list"
  and preorders :: "iplugin list \<Rightarrow> iplugin list" where
  "preorder (IPlugin i pa opt ap ps qs) =
     IPlugin i pa opt ap ps qs # (case ps of None \<Rightarrow> [] | Some l \<Rightarrow> preorders l)"
| "preorders [] = []"
| "preorders (p # ps) = preorder p @ preorders ps"

fun deferred :: "iplugin \<Rightarrow> iplugin list"
  and deferreds :: "iplugin list \<Rightarrow> iplugin list" where
  "deferred (IPlugin i pa opt ap ps qs) =
     (case ps of None \<Rightarrow> [] | Some l \<Rightarrow> deferreds l) @ (case qs of None \<Rightarrow> [] | Some l \<Rightarrow> l)"
| "deferreds [] = []"
| "deferreds (p # ps) = deferred p @ deferreds ps"

text \<open>
  Lines 124 to 126 of \<^verbatim>\<open>initPreset\<close> alone (context, setup function, registration),
  and their iteration over a list: what \<^verbatim>\<open>initPreset\<close> does to one preset apart from
  descending into its declarations.
\<close>

definition stepPreset :: "iplugin \<Rightarrow> kernel \<Rightarrow> error option \<times> kernel" where
  "stepPreset p k =
     (case call_apply p (initPluginCtx k) of
        (Some e, k1) \<Rightarrow> (Some e, k1)
      | (None, k1) \<Rightarrow> registerPlugin p k1)"

fun stepPresets :: "iplugin list \<Rightarrow> kernel \<Rightarrow> error option \<times> kernel" where
  "stepPresets [] k = (None, k)"
| "stepPresets (p # ps) k =
     (case stepPreset p k of
        (Some e, k1) \<Rightarrow> (Some e, k1)
      | (None, k1) \<Rightarrow> stepPresets ps k1)"

text \<open>A setup function that never throws.\<close>

definition no_throw :: "iplugin \<Rightarrow> bool" where
  "no_throw p = (\<forall>r. fst (apply_fn p r) = None)"

text \<open>
  The fields that decide which declarations a resolution sees, and the order in which
  \<^verbatim>\<open>initPresetsAndPlugins\<close> then initialises them: the presets depth-first, the plugins
  declared by presets, the top-level plugins.
\<close>

definition settings :: "kernel \<Rightarrow> string \<times> bool \<times> bool \<times> jsval \<times> jsval \<times> jsval" where
  "settings k =
     (appPath k, isWatch k, isProduction k, optsPresets k, optsPlugins k, initialConfig k)"


section \<open>Example inputs\<close>

text \<open>
  Modelled from the spec: what a setup function does through its context is code of
  \<^verbatim>\<open>Plugin.ts\<close>, not under src/.  Section 3: the entries of a hook name are stored as
  an ordered sequence and uniqueness is not required, so \<open>addHook\<close> appends; section 6:
  \<^verbatim>\<open>registerCommand(name, handler)\<close> enters the command in the dispatch map, and the
  command is invoked through the hook chain of its name.
\<close>

definition addHook :: "ihook \<Rightarrow> regs \<Rightarrow> regs" where
  "addHook h r = r\<lparr>hooks := (hooks r)(name h \<mapsto> hooks_get r (name h) @ [h])\<rparr>"

definition registerCommand :: "ihook \<Rightarrow> regs \<Rightarrow> regs" where
  "registerCommand h r =
     addHook h (r\<lparr>commands := (commands r)(name h \<mapsto> \<lparr>cname = name h\<rparr>)\<rparr>)"

text \<open>A configuration, the external collaborators around given resolved declarations, a new kernel.\<close>

definition ex_config :: config where
  "ex_config =
     \<lparr> cfg_initialConfig = Obj [(''sourceRoot'', Str ''src''), (''outputRoot'', Str ''dist'')],
       configPath = ''/app/config/index.js'',
       getConfigWithNamed = (\<lambda>p c. Obj [(''platform'', Str p)]) \<rparr>"

definition ex_ext :: "iplugin list \<Rightarrow> iplugin list \<Rightarrow> ext" where
  "ex_ext ps qs =
     \<lparr> newConfig = (\<lambda>a w p. ex_config),
       path_join = (\<lambda>a b. a @ ''/'' @ b),
       mergePlugins = (\<lambda>a b t. b),
       resolvePresetsOrPlugins = (\<lambda>v t. case t of Preset \<Rightarrow> ps | Plugin \<Rightarrow> qs),
       cwd = ''/app'' \<rparr>"

definition ex_new :: kernel where
  "ex_new = constructor (ex_ext [] [])
     \<lparr> o_appPath = ''/app'', o_isWatch = False, o_isProduction = False,
       o_presets = Arr [], o_plugins = Arr [] \<rparr>"

text \<open>The new kernel once its configuration is loaded.\<close>

definition ex_loaded :: kernel where
  "ex_loaded = ex_new\<lparr>config := Some ex_config, initialConfig := cfg_initialConfig ex_config\<rparr>"

text \<open>A declaration whose setup function never throws, and one that does nothing.\<close>

definition ex_item ::
  "string \<Rightarrow> (regs \<Rightarrow> regs) \<Rightarrow> iplugin list option \<Rightarrow> iplugin list option \<Rightarrow> iplugin" where
  "ex_item i f ps qs = IPlugin i i (Obj []) (\<lambda>r. (None, f r)) ps qs"

definition ex_leaf :: "string \<Rightarrow> iplugin" where
  "ex_leaf i = ex_item i (\<lambda>r. r) None None"

text \<open>Hook entries and a kernel that holds one chain.\<close>

definition ex_hook :: "string \<Rightarrow> int option \<Rightarrow> (jsval \<Rightarrow> jsval \<Rightarrow> error + jsval) \<Rightarrow> ihook" where
  "ex_hook p s f = \<lparr> name = ''chain'', plugin = p, fn = f, stage = s, before = [] \<rparr>"

definition ex_h1 :: ihook where "ex_h1 = ex_hook ''p1'' (Some 0) (\<lambda>a b. Inr (Num 1))"
definition ex_h2 :: ihook where "ex_h2 = ex_hook ''p2'' (Some 1) (\<lambda>a b. Inr (Num 2))"
definition ex_h3 :: ihook where "ex_h3 = ex_hook ''p3'' None (\<lambda>a b. Inr (Num 3))"
definition ex_bad :: ihook where "ex_bad = ex_hook ''bad'' None (\<lambda>a b. Inl (Thrown (Str ''boom'')))"

definition ex_kernel :: "ihook list \<Rightarrow> kernel" where
  "ex_kernel hs = ex_new\<lparr>hooks := [''chain'' \<mapsto> hs]\<rparr>"


definition ex_chain :: kernel where "ex_chain = ex_kernel [ex_h1, ex_h2, ex_h3]"
definition ex_failing :: kernel where "ex_failing = ex_kernel [ex_bad, ex_h1]"


definition ex_build :: ihook where
  "ex_build =
     \<lparr> name = ''build'', plugin = ''p'', fn = (\<lambda>a b. Inr (Str ''built'')), stage = None,
       before = [] \<rparr>"



text \<open>A plugin that registers the command \<^verbatim>\<open>build\<close>.\<close>

definition ex_X_build :: ext where
  "ex_X_build = ex_ext [] [ex_item ''p'' (registerCommand ex_build) None None]"

definition ex_built :: kernel where "ex_built = snd (init ex_X_build ex_new)"

text \<open>
  Presets \<open>a\<close> and \<open>b\<close>, where \<open>b\<close> declares a nested preset that resolves to the id
  \<open>a\<close> again; and a preset \<open>a\<close> that declares the plugin \<open>r\<close>, next to a top-level plugin
  that resolves to \<open>r\<close> as well.
\<close>

definition ex_X_dup_preset :: ext where
  "ex_X_dup_preset =
     ex_ext [ex_leaf ''a'', ex_item ''b'' (\<lambda>r. r) (Some [ex_leaf ''a'']) None] []"

definition ex_X_dup_plugin :: ext where
  "ex_X_dup_plugin =
     ex_ext [ex_item ''a'' (\<lambda>r. r) None (Some [ex_leaf ''r''])] [ex_leaf ''r'']"

text \<open>
  A preset \<open>P\<close> that declares the preset \<open>Q\<close> and the plugin \<open>R\<close>, its sibling \<open>S\<close>,
  and the top-level plugin \<open>T\<close>.
\<close>

definition ex_P :: iplugin where
  "ex_P = ex_item ''P'' (\<lambda>r. r) (Some [ex_leaf ''Q'']) (Some [ex_leaf ''R''])"

definition ex_X_nested :: ext where
  "ex_X_nested = ex_ext [ex_P, ex_leaf ''S''] [ex_leaf ''T'']"

text \<open>The kernel when the presets of that tree are resolved.\<close>

definition ex_presets_done :: kernel where
  "ex_presets_done = snd (resolvePresets ex_X_nested Undefined ex_loaded)"

section \<open>Properties of the hook runner\<close>

lemma callback_Inl:
  "fn hook arg opts = Inl e \<Longrightarrow>
     callback opts hook arg (acc, evs) = (Inl e, (acc, evs @ [HookCall hook arg opts]))"
  by (simp add: callback_def)

lemma callback_Inr:
  "fn hook arg opts = Inr res \<Longrightarrow>
     callback opts hook arg (acc, evs) =
       (Inr (Arr (acc @ [res])), (acc @ [res], evs @ [HookCall hook arg opts]))"
  by (simp add: callback_def)

text \<open>
  One run of the waterfall over the callbacks, from any captured state: \<open>rs\<close> are the
  results pushed on \<^verbatim>\<open>resArr\<close>, the handler at position \<open>i\<close> is given the initial value
  when \<open>i = 0\<close> and the array of the results so far otherwise, and the run stops at the
  first handler that fails.
\<close>

lemma promise_callback:
  "promise (callback opts) ts v (acc, evs) = (r, (acc', evs')) \<Longrightarrow>
   \<exists>rs. acc' = acc @ rs \<and>
     (\<forall>i < length rs.
        fn (tfn (ts ! i)) (if i = 0 then v else Arr (acc @ take i rs)) opts = Inr (rs ! i)) \<and>
     (case r of
        Inr x \<Rightarrow> length rs = length ts \<and> x = (if ts = [] then v else Arr acc')
      | Inl e \<Rightarrow> length rs < length ts \<and>
                 fn (tfn (ts ! length rs)) (if length rs = 0 then v else Arr acc') opts = Inl e) \<and>
     evs' = evs @ map (\<lambda>i. HookCall (tfn (ts ! i)) (if i = 0 then v else Arr (acc @ take i rs)) opts)
                    [0..<(case r of Inr _ \<Rightarrow> length rs | Inl _ \<Rightarrow> Suc (length rs))]"
proof (induction ts arbitrary: v acc evs)
  case Nil
  then show ?case by auto
next
  case (Cons t ts)
  show ?case
  proof (cases "fn (tfn t) v opts")
    case (Inl e)
    with Cons.prems have "r = Inl e" "acc' = acc" "evs' = evs @ [HookCall (tfn t) v opts]"
      by (auto simp: callback_Inl)
    then show ?thesis using Inl by (intro exI[of _ "[]"]) simp
  next
    case (Inr res)
    let ?ev = "HookCall (tfn t) v opts"
    from Cons.prems Inr
    have run: "promise (callback opts) ts (Arr (acc @ [res])) (acc @ [res], evs @ [?ev])
                 = (r, (acc', evs'))"
      by (simp add: callback_Inr)
    have eq: "(if j = 0 then Arr (acc @ [res]) else Arr ((acc @ [res]) @ take j rs))
                = Arr (acc @ res # take j rs)" for j rs
      by simp
    from Cons.IH[OF run] obtain rs where
      a: "acc' = (acc @ [res]) @ rs"
      and f: "\<forall>i < length rs. fn (tfn (ts ! i)) (Arr (acc @ res # take i rs)) opts = Inr (rs ! i)"
      and c: "(case r of
                 Inr x \<Rightarrow> length rs = length ts \<and> x = (if ts = [] then Arr (acc @ [res]) else Arr acc')
               | Inl e \<Rightarrow> length rs < length ts \<and>
                          fn (tfn (ts ! length rs))
                             (if length rs = 0 then Arr (acc @ [res]) else Arr acc') opts = Inl e)"
      and e: "evs' = (evs @ [?ev]) @
                map (\<lambda>i. HookCall (tfn (ts ! i)) (Arr (acc @ res # take i rs)) opts)
                    [0..<(case r of Inr _ \<Rightarrow> length rs | Inl _ \<Rightarrow> Suc (length rs))]"
      unfolding eq by blast
    let ?rs = "res # rs"
    let ?arg = "\<lambda>i. if i = 0 then v else Arr (acc @ take i ?rs)"
    have 1: "acc' = acc @ ?rs" using a by simp
    have 2: "\<forall>i < length ?rs. fn (tfn ((t # ts) ! i)) (?arg i) opts = Inr (?rs ! i)"
    proof (intro allI impI)
      fix i assume "i < length ?rs"
      then show "fn (tfn ((t # ts) ! i)) (?arg i) opts = Inr (?rs ! i)"
        using f Inr by (cases i) auto
    qed
    have 3: "(case r of
                Inr x \<Rightarrow> length ?rs = length (t # ts) \<and> x = (if t # ts = [] then v else Arr acc')
              | Inl e \<Rightarrow> length ?rs < length (t # ts) \<and>
                         fn (tfn ((t # ts) ! length ?rs))
                            (if length ?rs = 0 then v else Arr acc') opts = Inl e)"
      using c a by (cases r) (auto split: if_splits)
    have 4: "evs' = evs @ map (\<lambda>i. HookCall (tfn ((t # ts) ! i)) (?arg i) opts)
                            [0..<(case r of Inr _ \<Rightarrow> length ?rs | Inl _ \<Rightarrow> Suc (length ?rs))]"
    proof -
      have m: "map (\<lambda>i. HookCall (tfn ((t # ts) ! i)) (?arg i) opts) [0..<Suc m]
                 = ?ev # map (\<lambda>i. HookCall (tfn (ts ! i)) (Arr (acc @ res # take i rs)) opts) [0..<m]"
        for m
        unfolding upt_conv_Cons[OF zero_less_Suc] map_Suc_upt[symmetric] by (simp del: upt_Suc)
      show ?thesis using e by (cases r) (simp_all add: m del: upt_Suc)
    qed
    from 1 2 3 4 show ?thesis by blast
  qed
qed

lemma applyPlugins_Str:
  "applyPlugins (ArgObj (Str n) v opts) k =
     (case promise (callback opts) (taps_of (hooks_get k n)) v ([], []) of
        (r, (resArr, evs)) \<Rightarrow> (r, k\<lparr>trace := trace k @ evs\<rparr>))"
  by (simp add: applyPlugins_def)

lemma applyPlugins_ArgName:
  "applyPlugins (ArgName s) k = applyPlugins (ArgObj (Str s) Undefined Undefined) k"
  by (simp add: applyPlugins_def)

lemma applyPlugins_run:
  assumes "applyPlugins (ArgObj (Str n) v opts) k = (r, k')"
  shows "\<exists>rs. (\<forall>i < length rs.
              fn (tfn (taps_of (hooks_get k n) ! i)) (if i = 0 then v else Arr (take i rs)) opts
                = Inr (rs ! i)) \<and>
           (case r of
              Inr x \<Rightarrow> length rs = length (taps_of (hooks_get k n)) \<and>
                       x = (if taps_of (hooks_get k n) = [] then v else Arr rs)
            | Inl e \<Rightarrow> length rs < length (taps_of (hooks_get k n)) \<and>
                       fn (tfn (taps_of (hooks_get k n) ! length rs))
                          (if length rs = 0 then v else Arr rs) opts = Inl e) \<and>
           k' = k\<lparr>trace := trace k @
                  map (\<lambda>i. HookCall (tfn (taps_of (hooks_get k n) ! i))
                              (if i = 0 then v else Arr (take i rs)) opts)
                      [0..<(case r of Inr _ \<Rightarrow> length rs | Inl _ \<Rightarrow> Suc (length rs))]\<rparr>"
proof -
  obtain r0 acc' evs' where p:
    "promise (callback opts) (taps_of (hooks_get k n)) v ([], []) = (r0, (acc', evs'))"
    by (metis prod.exhaust)
  with assms have r: "r0 = r" and k': "k' = k\<lparr>trace := trace k @ evs'\<rparr>"
    by (simp_all add: applyPlugins_Str)
  from promise_callback[OF p] obtain rs where
    "acc' = [] @ rs"
    "\<forall>i < length rs. fn (tfn (taps_of (hooks_get k n) ! i))
        (if i = 0 then v else Arr ([] @ take i rs)) opts = Inr (rs ! i)"
    "case r0 of
       Inr x \<Rightarrow> length rs = length (taps_of (hooks_get k n)) \<and>
                x = (if taps_of (hooks_get k n) = [] then v else Arr acc')
     | Inl e \<Rightarrow> length rs < length (taps_of (hooks_get k n)) \<and>
                fn (tfn (taps_of (hooks_get k n) ! length rs))
                   (if length rs = 0 then v else Arr acc') opts = Inl e"
    "evs' = [] @ map (\<lambda>i. HookCall (tfn (taps_of (hooks_get k n) ! i))
                          (if i = 0 then v else Arr ([] @ take i rs)) opts)
                  [0..<(case r0 of Inr _ \<Rightarrow> length rs | Inl _ \<Rightarrow> Suc (length rs))]"
    by blast
  then show ?thesis unfolding r k'
    by (intro exI[of _ rs]) (simp only: append_Nil simp_thms)
qed

lemma called_map_HookCall: "called (map (\<lambda>i. HookCall (f i) (g i) (h i)) xs) = map f xs"
  by (induction xs) simp_all

lemma setups_map_HookCall: "setups (map (\<lambda>i. HookCall (f i) (g i) (h i)) xs) = []"
  by (induction xs) simp_all



lemma map_nth_upt_take: "m \<le> length xs \<Longrightarrow> map (\<lambda>i. f (xs ! i)) [0..<m] = take m (map f xs)"
  by (induction m) (simp_all add: take_Suc_conv_app_nth)

text \<open>The handlers that one call of \<^verbatim>\<open>applyPlugins\<close> invokes are a prefix of the chain order.\<close>

lemma applyPlugins_called:
  assumes "applyPlugins (ArgObj (Str n) v opts) k = (r, k')"
  shows "\<exists>m \<le> length (taps_of (hooks_get k n)).
           called (drop (length (trace k)) (trace k')) = take m (map tfn (taps_of (hooks_get k n))) \<and>
           (\<forall>x. r = Inr x \<longrightarrow> m = length (taps_of (hooks_get k n)))"
proof -
  let ?ts = "taps_of (hooks_get k n)"
  from applyPlugins_run[OF assms] obtain rs where
    c: "case r of
              Inr x \<Rightarrow> length rs = length ?ts \<and> x = (if ?ts = [] then v else Arr rs)
            | Inl e \<Rightarrow> length rs < length ?ts \<and>
                       fn (tfn (?ts ! length rs)) (if length rs = 0 then v else Arr rs) opts = Inl e"
    and k': "k' = k\<lparr>trace := trace k @
                  map (\<lambda>i. HookCall (tfn (?ts ! i)) (if i = 0 then v else Arr (take i rs)) opts)
                      [0..<(case r of Inr _ \<Rightarrow> length rs | Inl _ \<Rightarrow> Suc (length rs))]\<rparr>"
    by blast
  let ?m = "case r of Inr _ \<Rightarrow> length rs | Inl _ \<Rightarrow> Suc (length rs)"
  have m: "?m \<le> length ?ts" using c by (cases r) auto
  have "called (drop (length (trace k)) (trace k')) = take ?m (map tfn ?ts)"
    unfolding k' by (simp add: called_map_HookCall map_nth_upt_take[OF m])
  moreover have "\<forall>x. r = Inr x \<longrightarrow> ?m = length ?ts" using c by auto
  ultimately show ?thesis using m by blast
qed

text \<open>What one call of \<^verbatim>\<open>applyPlugins\<close> leaves behind: the kernel with a longer trace.\<close>

lemma applyPlugins_result:
  assumes "applyPlugins args k = (r, k')"
  shows "\<exists>evs. k' = k\<lparr>trace := trace k @ evs\<rparr> \<and> setups evs = [] \<and>
           (\<forall>n v opts x. args = ArgObj (Str n) v opts \<longrightarrow> r = Inr x \<longrightarrow> x = v \<or> (\<exists>rs. x = Arr rs))"
proof -
  have str: "\<exists>evs. k' = k\<lparr>trace := trace k @ evs\<rparr> \<and> setups evs = [] \<and>
           (\<forall>x. r = Inr x \<longrightarrow> x = v \<or> (\<exists>rs. x = Arr rs))"
    if a: "applyPlugins (ArgObj (Str n) v opts) k = (r, k')" for n v opts
  proof -
    from applyPlugins_run[OF a] obtain rs where
      c: "case r of
              Inr x \<Rightarrow> length rs = length (taps_of (hooks_get k n)) \<and>
                       x = (if taps_of (hooks_get k n) = [] then v else Arr rs)
            | Inl e \<Rightarrow> length rs < length (taps_of (hooks_get k n)) \<and>
                       fn (tfn (taps_of (hooks_get k n) ! length rs))
                          (if length rs = 0 then v else Arr rs) opts = Inl e"
      and k': "k' = k\<lparr>trace := trace k @
                  map (\<lambda>i. HookCall (tfn (taps_of (hooks_get k n) ! i))
                              (if i = 0 then v else Arr (take i rs)) opts)
                      [0..<(case r of Inr _ \<Rightarrow> length rs | Inl _ \<Rightarrow> Suc (length rs))]\<rparr>"
      by blast
    have "\<forall>x. r = Inr x \<longrightarrow> x = v \<or> (\<exists>rs. x = Arr rs)" using c by auto
    moreover have "setups (map (\<lambda>i. HookCall (tfn (taps_of (hooks_get k n) ! i))
                              (if i = 0 then v else Arr (take i rs)) opts)
                      [0..<(case r of Inr _ \<Rightarrow> length rs | Inl _ \<Rightarrow> Suc (length rs))]) = []"
      by (rule setups_map_HookCall)
    ultimately show ?thesis using k' by blast
  qed
  show ?thesis
  proof (cases args)
    case (ArgName s)
    with assms have "applyPlugins (ArgObj (Str s) Undefined Undefined) k = (r, k')"
      by (simp add: applyPlugins_ArgName)
    from str[OF this] ArgName show ?thesis by auto
  next
    case (ArgObj n v opts)
    show ?thesis
    proof (cases "\<exists>s. n = Str s")
      case True
      then obtain s where "n = Str s" ..
      with str[of s v opts] assms ArgObj show ?thesis by auto
    next
      case False
      with assms ArgObj have "k' = k" by (cases n) (auto simp: applyPlugins_def)
      then show ?thesis using False ArgObj by (intro exI[of _ "[]"]) simp
    qed
  qed
qed

lemma applyPlugins_keeps:
  assumes "applyPlugins args k = (r, k')"
  shows "\<exists>evs. k' = k\<lparr>trace := trace k @ evs\<rparr> \<and> setups evs = []"
  using applyPlugins_result[OF assms] by blast

lemma applyPlugins_platforms: "applyPlugins args k = (r, k') \<Longrightarrow> platforms k' = platforms k"
  by (drule applyPlugins_keeps) auto

text \<open>
  Without \<open>before\<close> constraints the order of a chain is the stable sort of its entries
  by stage: ascending stage, then registration order within equal stage.
\<close>

lemma insort_key_pass:
  "\<forall>y\<in>set ys. f y < f a \<Longrightarrow> insort_key f a (ys @ zs) = ys @ insort_key f a zs"
  by (induction ys) auto

lemma insort_key_stop:
  "f a \<le> f x \<Longrightarrow> insort_key f a (ys @ x # zs) = insort_key f a ys @ x # zs"
  by (induction ys) auto

lemma sort_key_snoc:
  "sort_key f (xs @ [x]) =
     filter (\<lambda>y. f y \<le> f x) (sort_key f xs) @ x # filter (\<lambda>y. f x < f y) (sort_key f xs)"
proof (induction xs)
  case Nil
  show ?case by simp
next
  case (Cons a xs)
  let ?S = "sort_key f xs"
  have s: "sorted (map f ?S)" by simp
  show ?case
  proof (cases "f a \<le> f x")
    case True
    have "sort_key f ((a # xs) @ [x]) =
            insort_key f a (filter (\<lambda>y. f y \<le> f x) ?S @ x # filter (\<lambda>y. f x < f y) ?S)"
      using Cons.IH by simp
    also have "\<dots> = insort_key f a (filter (\<lambda>y. f y \<le> f x) ?S) @ x # filter (\<lambda>y. f x < f y) ?S"
      using True by (rule insort_key_stop)
    also have "insort_key f a (filter (\<lambda>y. f y \<le> f x) ?S) = filter (\<lambda>y. f y \<le> f x) (insort_key f a ?S)"
      using True s by (simp add: filter_insort)
    also have "filter (\<lambda>y. f x < f y) ?S = filter (\<lambda>y. f x < f y) (insort_key f a ?S)"
      using True by (simp add: filter_insort_triv)
    finally show ?thesis by simp
  next
    case False
    have "sort_key f ((a # xs) @ [x]) =
            insort_key f a (filter (\<lambda>y. f y \<le> f x) ?S @ x # filter (\<lambda>y. f x < f y) ?S)"
      using Cons.IH by simp
    also have "\<dots> = filter (\<lambda>y. f y \<le> f x) ?S @ insort_key f a (x # filter (\<lambda>y. f x < f y) ?S)"
      using False by (intro insort_key_pass) auto
    also have "insort_key f a (x # filter (\<lambda>y. f x < f y) ?S) = x # insort_key f a (filter (\<lambda>y. f x < f y) ?S)"
      using False by simp
    also have "insort_key f a (filter (\<lambda>y. f x < f y) ?S) = filter (\<lambda>y. f x < f y) (insort_key f a ?S)"
      using False s by (simp add: filter_insort)
    also have "filter (\<lambda>y. f y \<le> f x) ?S = filter (\<lambda>y. f y \<le> f x) (insort_key f a ?S)"
      using False by (simp add: filter_insort_triv)
    finally show ?thesis by simp
  qed
qed

lemma insert_back_sorted:
  "sorted (rev (map tstage rs)) \<Longrightarrow>
     insert_back item [] rs =
       filter (\<lambda>x. tstage item < tstage x) rs @ item # filter (\<lambda>x. tstage x \<le> tstage item) rs"
proof (induction rs)
  case Nil
  show ?case by simp
next
  case (Cons x rs)
  from Cons.prems have s: "sorted (rev (map tstage rs))" and le: "\<forall>y\<in>set rs. tstage y \<le> tstage x"
    by (auto simp: sorted_append)
  show ?case
  proof (cases "tstage item < tstage x")
    case True
    with Cons.IH[OF s] show ?thesis by simp
  next
    case False
    with le have "filter (\<lambda>x. tstage item < tstage x) rs = []"
      "filter (\<lambda>x. tstage x \<le> tstage item) rs = rs"
      by (auto simp: filter_empty_conv filter_id_conv)
    with False show ?thesis by simp
  qed
qed

lemma tapPromise_sorted:
  assumes "sorted (map tstage ts)" and "tbefore item = []"
  shows "tapPromise item ts =
           filter (\<lambda>x. tstage x \<le> tstage item) ts @ item # filter (\<lambda>x. tstage item < tstage x) ts"
proof -
  have "sorted (rev (map tstage (rev ts)))" using assms(1) by (simp add: rev_map)
  from insert_back_sorted[OF this, of item] assms(2) show ?thesis
    by (simp add: tapPromise_def rev_filter)
qed

lemma tstage_tap_of: "tstage (tap_of h) = stage_of h"
  by (simp add: tap_of_def stage_of_def split: option.splits)

lemma taps_of_stable_sort:
  assumes "\<forall>h\<in>set hs. before h = []"
  shows "taps_of hs = map tap_of (sort_key stage_of hs)"
proof -
  have "foldl (\<lambda>w hook. tapPromise (tap_of hook) w) [] hs = map tap_of (sort_key stage_of hs)"
    using assms
  proof (induction hs rule: rev_induct)
    case Nil
    show ?case by simp
  next
    case (snoc h hs)
    let ?S = "sort_key stage_of hs"
    have s: "sorted (map tstage (map tap_of ?S))"
      by (simp add: comp_def tstage_tap_of)
    have b: "tbefore (tap_of h) = []" using snoc.prems by (simp add: tap_of_def)
    have "foldl (\<lambda>w hook. tapPromise (tap_of hook) w) [] (hs @ [h]) = tapPromise (tap_of h) (map tap_of ?S)"
      using snoc by simp
    also have "\<dots> = map tap_of (filter (\<lambda>y. stage_of y \<le> stage_of h) ?S @ h # filter (\<lambda>y. stage_of h < stage_of y) ?S)"
      unfolding tapPromise_sorted[OF s b] by (simp add: filter_map comp_def tstage_tap_of)
    finally show ?case by (simp only: sort_key_snoc)
  qed
  then show ?thesis by (cases hs) (simp_all add: taps_of_def)
qed

lemma chain_order_stable_sort:
  "\<forall>h\<in>set hs. before h = [] \<Longrightarrow> map tfn (taps_of hs) = sort_key stage_of hs"
  by (simp add: taps_of_stable_sort comp_def tap_of_def)

section \<open>Claims about the hook runner\<close>




text \<open>
  Claim C4.  For every hook name with no registered handler and every initial value \<open>v\<close>,
  \<^verbatim>\<open>applyPlugins({ name, initialVal: v })\<close> resolves to \<open>v\<close> unchanged; no handler is
  called.
\<close>

theorem applyPlugins_no_handlers:
  "hooks_get k n = [] \<Longrightarrow> applyPlugins (ArgObj (Str n) v opts) k = (Inr v, k)"
  by (simp add: applyPlugins_Str taps_of_def)

text \<open>On a new kernel \<^verbatim>\<open>modifyConfig\<close> has no handler, and the seed configuration comes back.\<close>

theorem applyPlugins_no_handlers_witness:
  "hooks_get ex_new ''modifyConfig'' = [] \<and>
   applyPlugins (ArgObj (Str ''modifyConfig'') (cfg_initialConfig ex_config) Undefined) ex_new
     = (Inr (cfg_initialConfig ex_config), ex_new)"
proof -
  have h: "hooks_get ex_new ''modifyConfig'' = []"
    by (simp add: ex_new_def constructor_def hooks_get_def)
  from applyPlugins_no_handlers[OF h] h show ?thesis by blast
qed

text \<open>
  Claim C5.  For a chain registered as \<open>h1\<close> (stage 0), \<open>h2\<close> (stage 1), \<open>h3\<close> (stage 0,
  registered after \<open>h1\<close>), none with a \<open>before\<close> constraint, the taps are ordered
  \<open>h1, h3, h2\<close>, and \<^verbatim>\<open>applyPlugins\<close> invokes the handlers in that order: the handlers
  called are the first \<open>m\<close> of \<open>h1, h3, h2\<close>, all three when the chain resolves.
\<close>

theorem applyPlugins_stage_order:
  assumes "hooks_get k n = [h1, h2, h3]"
      and "stage h1 \<in> {None, Some 0}" and "stage h2 = Some 1" and "stage h3 \<in> {None, Some 0}"
      and "before h1 = []" and "before h2 = []" and "before h3 = []"
      and "applyPlugins (ArgObj (Str n) v opts) k = (r, k')"
  shows "map tfn (taps_of (hooks_get k n)) = [h1, h3, h2] \<and>
         (\<exists>m \<le> 3. called (drop (length (trace k)) (trace k')) = take m [h1, h3, h2] \<and>
                  (\<forall>x. r = Inr x \<longrightarrow> m = 3))"
proof -
  have o: "map tfn (taps_of (hooks_get k n)) = [h1, h3, h2]"
    using assms(1-7) by (auto simp: taps_of_def tapPromise_def tap_of_def)
  have len: "length (taps_of (hooks_get k n)) = 3"
    using arg_cong[OF o, of length] by simp
  from applyPlugins_called[OF assms(8)] show ?thesis
    unfolding o len by blast
qed

theorem applyPlugins_stage_order_witness:
  "hooks_get ex_chain ''chain'' = [ex_h1, ex_h2, ex_h3] \<and>
   stage ex_h1 \<in> {None, Some 0} \<and> stage ex_h2 = Some 1 \<and> stage ex_h3 \<in> {None, Some 0} \<and>
   before ex_h1 = [] \<and> before ex_h2 = [] \<and> before ex_h3 = [] \<and>
   map tfn (taps_of (hooks_get ex_chain ''chain'')) = [ex_h1, ex_h3, ex_h2] \<and>
   called (trace (snd (applyPlugins (ArgObj (Str ''chain'') Undefined Undefined) ex_chain)))
     = [ex_h1, ex_h3, ex_h2]"
proof -
  have h: "hooks_get ex_chain ''chain'' = [ex_h1, ex_h2, ex_h3]"
    by (simp add: ex_chain_def ex_h1_def ex_h2_def ex_h3_def ex_kernel_def ex_hook_def ex_new_def
        constructor_def hooks_get_def)
  have s: "stage ex_h1 \<in> {None, Some 0}" "stage ex_h2 = Some 1" "stage ex_h3 \<in> {None, Some 0}"
    and b: "before ex_h1 = []" "before ex_h2 = []" "before ex_h3 = []"
    by (simp_all add: ex_chain_def ex_h1_def ex_h2_def ex_h3_def ex_kernel_def ex_hook_def
        ex_new_def constructor_def)
  have c: "called (trace (snd (applyPlugins (ArgObj (Str ''chain'') Undefined Undefined) ex_chain)))
             = [ex_h1, ex_h3, ex_h2]"
    by (simp add: ex_chain_def ex_h1_def ex_h2_def ex_h3_def ex_kernel_def ex_hook_def ex_new_def
        constructor_def applyPlugins_def hooks_get_def taps_of_def tapPromise_def tap_of_def
        callback_def)
  from applyPlugins_stage_order[OF h s b surjective_pairing]
  have "map tfn (taps_of (hooks_get ex_chain ''chain'')) = [ex_h1, ex_h3, ex_h2]" by blast
  with h s b c show ?thesis by blast
qed

text \<open>
  Claim C6.  In one call of \<^verbatim>\<open>applyPlugins\<close>, if the handler of the \<open>j\<close>-th call throws or
  rejects with \<open>e\<close>, then that call is the last one (no handler ordered after it is
  invoked: the handlers called are exactly the first \<open>j + 1\<close> of the chain order) and
  \<^verbatim>\<open>applyPlugins\<close> fails with \<open>e\<close> itself.
\<close>

theorem handler_failure_aborts:
  assumes "applyPlugins (ArgObj (Str n) v opts) k = (r, k')"
      and "trace k' = trace k @ evs"
      and "j < length evs" and "evs ! j = HookCall h a opts'"
      and "fn h a opts' = Inl e"
  shows "r = Inl e \<and> length evs = Suc j \<and>
         called evs = take (Suc j) (map tfn (taps_of (hooks_get k n)))"
proof -
  let ?ts = "taps_of (hooks_get k n)"
  from applyPlugins_run[OF assms(1)] obtain rs where
    f: "\<forall>i < length rs. fn (tfn (?ts ! i)) (if i = 0 then v else Arr (take i rs)) opts = Inr (rs ! i)"
    and c: "case r of
              Inr x \<Rightarrow> length rs = length ?ts \<and> x = (if ?ts = [] then v else Arr rs)
            | Inl e \<Rightarrow> length rs < length ?ts \<and>
                       fn (tfn (?ts ! length rs)) (if length rs = 0 then v else Arr rs) opts = Inl e"
    and k': "k' = k\<lparr>trace := trace k @
                  map (\<lambda>i. HookCall (tfn (?ts ! i)) (if i = 0 then v else Arr (take i rs)) opts)
                      [0..<(case r of Inr _ \<Rightarrow> length rs | Inl _ \<Rightarrow> Suc (length rs))]\<rparr>"
    by blast
  let ?m = "case r of Inr _ \<Rightarrow> length rs | Inl _ \<Rightarrow> Suc (length rs)"
  let ?g = "\<lambda>i. HookCall (tfn (?ts ! i)) (if i = 0 then v else Arr (take i rs)) opts"
  have evs: "evs = map ?g [0..<?m]" using k' assms(2) by simp
  have m: "?m \<le> length ?ts" using c by (cases r) auto
  have jm: "j < ?m" using assms(3) evs by simp
  have "evs ! j = ?g j" using jm evs by simp
  with assms(4) have h: "h = tfn (?ts ! j)" and a: "a = (if j = 0 then v else Arr (take j rs))"
    and o: "opts' = opts" by simp_all
  have nj: "\<not> j < length rs"
  proof
    assume "j < length rs"
    with f have "fn h a opts' = Inr (rs ! j)" unfolding h a o by blast
    with assms(5) show False by simp
  qed
  with jm obtain e' where r: "r = Inl e'" and j: "j = length rs"
    by (cases r) auto
  from c r have "fn (tfn (?ts ! length rs)) (if length rs = 0 then v else Arr rs) opts = Inl e'"
    by simp
  moreover have "a = (if length rs = 0 then v else Arr rs)" unfolding a j by simp
  ultimately have "e' = e" using assms(5) unfolding h o j by simp
  moreover have "length evs = Suc j" using evs r j by simp
  moreover have "called evs = take (Suc j) (map tfn ?ts)"
    using m r j unfolding evs by (simp add: called_map_HookCall map_nth_upt_take del: upt_Suc)
  ultimately show ?thesis using r by simp
qed

text \<open>
  The chain registered as \<open>bad, h1\<close>: \<open>bad\<close> throws, \<open>h1\<close> is never invoked, and the call
  fails with what \<open>bad\<close> threw.
\<close>

theorem handler_failure_aborts_witness:
  "applyPlugins (ArgObj (Str ''chain'') Undefined Undefined) ex_failing =
     (Inl (Thrown (Str ''boom'')), ex_failing\<lparr>trace := [HookCall ex_bad Undefined Undefined]\<rparr>) \<and>
   fn ex_bad Undefined Undefined = Inl (Thrown (Str ''boom'')) \<and>
   map tfn (taps_of (hooks_get ex_failing ''chain'')) = [ex_bad, ex_h1] \<and>
   called [HookCall ex_bad Undefined Undefined] =
     take (Suc 0) (map tfn (taps_of (hooks_get ex_failing ''chain'')))"
proof -
  let ?evs = "[HookCall ex_bad Undefined Undefined]"
  have a: "applyPlugins (ArgObj (Str ''chain'') Undefined Undefined) ex_failing =
             (Inl (Thrown (Str ''boom'')), ex_failing\<lparr>trace := ?evs\<rparr>)"
    by (simp add: ex_failing_def ex_bad_def ex_h1_def ex_kernel_def ex_hook_def ex_new_def
        constructor_def applyPlugins_def hooks_get_def taps_of_def tapPromise_def tap_of_def
        callback_def)
  have t: "trace (ex_failing\<lparr>trace := ?evs\<rparr>) = trace ex_failing @ ?evs"
    by (simp add: ex_failing_def ex_bad_def ex_h1_def ex_kernel_def ex_hook_def ex_new_def
        constructor_def)
  have f: "fn ex_bad Undefined Undefined = Inl (Thrown (Str ''boom''))"
    by (simp add: ex_failing_def ex_bad_def ex_h1_def ex_kernel_def ex_hook_def ex_new_def
        constructor_def)
  have o: "map tfn (taps_of (hooks_get ex_failing ''chain'')) = [ex_bad, ex_h1]"
    by (simp add: ex_failing_def ex_bad_def ex_h1_def ex_kernel_def ex_hook_def ex_new_def
        constructor_def applyPlugins_def hooks_get_def taps_of_def tapPromise_def tap_of_def
        callback_def)
  have j: "0 < length ?evs" "?evs ! 0 = HookCall ex_bad Undefined Undefined" by simp_all
  from handler_failure_aborts[OF a t j f] a f o show ?thesis by blast
qed

section \<open>Properties of the resolution\<close>

text \<open>Single steps: what they change and what they leave alone.\<close>

lemma update_absent: "a \<notin> fst ` set al \<Longrightarrow> AList.update a v al = al @ [(a, v)]"
  by (induction al) auto

lemma initPluginCtx_frame:
  "trace (initPluginCtx k) = trace k" "plugins (initPluginCtx k) = plugins k"
  "extraPlugins (initPluginCtx k) = extraPlugins k"
  "initialConfig (initPluginCtx k) = initialConfig k"
  "optsPresets (initPluginCtx k) = optsPresets k" "optsPlugins (initPluginCtx k) = optsPlugins k"
  by (simp_all add: initPluginCtx_def registerMethod_def)

lemma initPluginCtx_extra:
  "initPluginCtx (k\<lparr>extraPlugins := x\<rparr>) = (initPluginCtx k)\<lparr>extraPlugins := x\<rparr>"
  by (simp add: initPluginCtx_def registerMethod_def)

lemma call_apply_frame:
  assumes "call_apply p k = (e, k')"
  shows "trace k' = trace k @ [Setup (plugin_id p)]" "plugins k' = plugins k"
    "extraPlugins k' = extraPlugins k" "initialConfig k' = initialConfig k"
    "optsPresets k' = optsPresets k" "optsPlugins k' = optsPlugins k"
    "e = fst (apply_fn p (regs.truncate k))"
  using assms by (auto simp: call_apply_def split: prod.splits)

lemma call_apply_extra:
  "call_apply p (k\<lparr>extraPlugins := x\<rparr>) =
     (case call_apply p k of (e, k') \<Rightarrow> (e, k'\<lparr>extraPlugins := x\<rparr>))"
  by (simp add: call_apply_def regs.truncate_def split: prod.splits)

lemma registerPlugin_extra:
  "registerPlugin p (k\<lparr>extraPlugins := x\<rparr>) =
     (case registerPlugin p k of (e, k') \<Rightarrow> (e, k'\<lparr>extraPlugins := x\<rparr>))"
  by (simp add: registerPlugin_def)

lemma registerPlugin_cases:
  "registerPlugin p k =
     (if plugin_id p \<in> fst ` set (plugins k) then (Some (PluginRegistered (plugin_id p)), k)
      else (None, k\<lparr>plugins := plugins k @ [(plugin_id p, p)]\<rparr>))"
  by (simp add: registerPlugin_def update_absent)

lemma stepPreset_extra:
  "stepPreset p (k\<lparr>extraPlugins := x\<rparr>) =
     (case stepPreset p k of (e, k') \<Rightarrow> (e, k'\<lparr>extraPlugins := x\<rparr>))"
  by (simp add: stepPreset_def initPluginCtx_extra call_apply_extra registerPlugin_extra
      split: prod.splits option.splits)

lemma stepPresets_extra:
  "stepPresets ps (k\<lparr>extraPlugins := x\<rparr>) =
     (case stepPresets ps k of (e, k') \<Rightarrow> (e, k'\<lparr>extraPlugins := x\<rparr>))"
  by (induction ps arbitrary: k) (simp_all add: stepPreset_extra split: prod.splits option.splits)

lemma stepPreset_extraPlugins: "stepPreset p k = (e, k') \<Longrightarrow> extraPlugins k' = extraPlugins k"
  by (auto simp: stepPreset_def registerPlugin_cases initPluginCtx_frame
      split: prod.splits option.splits if_splits dest: call_apply_frame(3))

lemma stepPresets_extraPlugins: "stepPresets ps k = (e, k') \<Longrightarrow> extraPlugins k' = extraPlugins k"
  by (induction ps arbitrary: k)
     (auto split: prod.splits option.splits dest: stepPreset_extraPlugins)

lemma stepPresets_append:
  "stepPresets (xs @ ys) k =
     (case stepPresets xs k of (Some e, k1) \<Rightarrow> (Some e, k1) | (None, k1) \<Rightarrow> stepPresets ys k1)"
  by (induction xs arbitrary: k) (simp_all split: prod.splits option.splits)


text \<open>
  The recursion of \<^verbatim>\<open>initPreset\<close> over a tree of declarations is the flat loop over its
  presets in depth-first order; only \<^verbatim>\<open>extraPlugins\<close> differs, by the plugins pushed so far.
\<close>

lemma initPresets_flat_aux:
  assumes "\<And>q k. q \<in> set l \<Longrightarrow>
             \<exists>G. initPreset q k =
               (case stepPresets (preorder q) k of
                  (e, k') \<Rightarrow> (e, k'\<lparr>extraPlugins := extraPlugins k @ (if e = None then deferred q else G)\<rparr>))"
  shows "\<exists>G. initPresets l k =
               (case stepPresets (preorders l) k of
                  (e, k') \<Rightarrow> (e, k'\<lparr>extraPlugins := extraPlugins k @ (if e = None then deferreds l else G)\<rparr>))"
  using assms
proof (induction l arbitrary: k)
  case Nil
  show ?case by simp
next
  case (Cons q l)
  obtain e k' where s: "stepPresets (preorder q) k = (e, k')" by (cases "stepPresets (preorder q) k")
  from Cons.prems[of q k] s obtain G where
    q: "initPreset q k = (e, k'\<lparr>extraPlugins := extraPlugins k @ (if e = None then deferred q else G)\<rparr>)"
    by auto
  show ?case
  proof (cases e)
    case (Some err)
    with q s show ?thesis
      by (intro exI[of _ G]) (simp add: stepPresets_append)
  next
    case None
    let ?k1 = "k'\<lparr>extraPlugins := extraPlugins k @ deferred q\<rparr>"
    obtain e2 k2 where s2: "stepPresets (preorders l) k' = (e2, k2)"
      by (cases "stepPresets (preorders l) k'")
    have "\<exists>G. initPresets l ?k1 =
               (case stepPresets (preorders l) ?k1 of
                  (e, k'') \<Rightarrow> (e, k''\<lparr>extraPlugins := extraPlugins ?k1 @ (if e = None then deferreds l else G)\<rparr>))"
      by (rule Cons.IH) (use Cons.prems in auto)
    then obtain G2 where
      l: "initPresets l ?k1 =
            (e2, k2\<lparr>extraPlugins := (extraPlugins k @ deferred q) @ (if e2 = None then deferreds l else G2)\<rparr>)"
      by (auto simp: stepPresets_extra s2)
    show ?thesis
      using None q s s2 l
      by (intro exI[of _ "deferred q @ G2"]) (simp add: stepPresets_append)
  qed
qed

lemma initPreset_flat:
  "\<exists>G. initPreset p k =
     (case stepPresets (preorder p) k of
        (e, k') \<Rightarrow> (e, k'\<lparr>extraPlugins := extraPlugins k @ (if e = None then deferred p else G)\<rparr>))"
proof (induction p arbitrary: k)
  case (IPlugin i pa opt ap ps qs)
  let ?p = "IPlugin i pa opt ap ps qs"
  obtain e k1 where s: "stepPreset ?p k = (e, k1)" by (cases "stepPreset ?p k")
  then have x: "extraPlugins k1 = extraPlugins k" by (rule stepPreset_extraPlugins)
  show ?case
  proof (cases e)
    case (Some err)
    with s x show ?thesis
      by (intro exI[of _ "[]"])
         (auto simp: stepPreset_def split: prod.splits option.splits)
  next
    case None
    show ?thesis
    proof (cases ps)
      case N: None
      from None s x N show ?thesis
        by (intro exI[of _ "[]"])
           (auto simp: stepPreset_def split: prod.splits option.splits)
    next
      case (Some l)
      have "\<exists>G. initPresets l k1 =
               (case stepPresets (preorders l) k1 of
                  (e, k') \<Rightarrow> (e, k'\<lparr>extraPlugins := extraPlugins k1 @ (if e = None then deferreds l else G)\<rparr>))"
        by (rule initPresets_flat_aux) (use IPlugin.IH(1) Some in auto)
      then obtain G where
        l: "initPresets l k1 =
               (case stepPresets (preorders l) k1 of
                  (e, k') \<Rightarrow> (e, k'\<lparr>extraPlugins := extraPlugins k @ (if e = None then deferreds l else G)\<rparr>))"
        unfolding x by blast
      from None s Some l show ?thesis
        by (intro exI[of _ G])
           (auto simp: stepPreset_def split: prod.splits option.splits)
    qed
  qed
qed

lemma initPresets_flat:
  "\<exists>G. initPresets l k =
     (case stepPresets (preorders l) k of
        (e, k') \<Rightarrow> (e, k'\<lparr>extraPlugins := extraPlugins k @ (if e = None then deferreds l else G)\<rparr>))"
  by (rule initPresets_flat_aux) (rule initPreset_flat)


text \<open>
  The flat loops: on success every item is set up and registered in order; with distinct ids
  and setup functions that do not throw they succeed; they stop at the first id that is
  registered already.
\<close>

lemma stepPreset_None:
  assumes "stepPreset p k = (None, k')"
  shows "trace k' = trace k @ [Setup (plugin_id p)]"
    "plugins k' = plugins k @ [(plugin_id p, p)]"
    "plugin_id p \<notin> fst ` set (plugins k)"
proof -
  obtain e k1 where c: "call_apply p (initPluginCtx k) = (e, k1)"
    by (cases "call_apply p (initPluginCtx k)")
  note f = call_apply_frame(1,2)[OF c, unfolded initPluginCtx_frame]
  from assms c have r: "registerPlugin p k1 = (None, k')"
    by (auto simp: stepPreset_def split: option.splits)
  then show "trace k' = trace k @ [Setup (plugin_id p)]"
    "plugins k' = plugins k @ [(plugin_id p, p)]"
    "plugin_id p \<notin> fst ` set (plugins k)"
    using f by (auto simp: registerPlugin_cases split: if_splits)
qed

lemma stepPreset_no_throw:
  assumes "no_throw p"
  shows "\<exists>k'. stepPreset p k =
           (if plugin_id p \<in> fst ` set (plugins k) then Some (PluginRegistered (plugin_id p)) else None, k') \<and>
         trace k' = trace k @ [Setup (plugin_id p)]"
proof -
  obtain e k1 where c: "call_apply p (initPluginCtx k) = (e, k1)"
    by (cases "call_apply p (initPluginCtx k)")
  from call_apply_frame[OF c] assms have "e = None" "trace k1 = trace k @ [Setup (plugin_id p)]"
    "plugins k1 = plugins k"
    by (simp_all add: no_throw_def initPluginCtx_frame)
  then show ?thesis using c
    by (simp add: stepPreset_def registerPlugin_cases)
qed

lemma stepPresets_ok:
  "stepPresets L k = (None, k') \<Longrightarrow>
     trace k' = trace k @ map (\<lambda>p. Setup (plugin_id p)) L \<and>
     plugins k' = plugins k @ map (\<lambda>p. (plugin_id p, p)) L"
proof (induction L arbitrary: k)
  case Nil
  then show ?case by simp
next
  case (Cons p L)
  then obtain k1 where 1: "stepPreset p k = (None, k1)" and 2: "stepPresets L k1 = (None, k')"
    by (auto split: prod.splits option.splits)
  from stepPreset_None[OF 1] Cons.IH[OF 2] show ?case by simp
qed

lemma stepPresets_progress:
  "distinct (map fst (plugins k) @ map plugin_id L) \<Longrightarrow> \<forall>p\<in>set L. no_throw p \<Longrightarrow>
     fst (stepPresets L k) = None"
proof (induction L arbitrary: k)
  case Nil
  then show ?case by simp
next
  case (Cons p L)
  from Cons.prems have np: "no_throw p" and nin: "plugin_id p \<notin> fst ` set (plugins k)"
    by auto
  from stepPreset_no_throw[OF np, of k] nin obtain k1 where 1: "stepPreset p k = (None, k1)"
    by auto
  from stepPreset_None(2)[OF 1] Cons.prems(1)
  have "distinct (map fst (plugins k1) @ map plugin_id L)" by auto
  with Cons.IH[of k1] Cons.prems(2) 1 show ?case by simp
qed

lemma stepPresets_dup:
  assumes "distinct (map fst (plugins k) @ map plugin_id A)"
      and "plugin_id d \<in> set (map fst (plugins k) @ map plugin_id A)"
      and "\<forall>p\<in>set (A @ [d]). no_throw p"
  shows "\<exists>k'. stepPresets (A @ d # B) k = (Some (PluginRegistered (plugin_id d)), k') \<and>
              trace k' = trace k @ map (\<lambda>p. Setup (plugin_id p)) (A @ [d])"
proof -
  obtain e k1 where a: "stepPresets A k = (e, k1)" by (cases "stepPresets A k")
  with stepPresets_progress[OF assms(1)] assms(3) have e: "e = None" by auto
  from stepPresets_ok[OF a[unfolded e]] assms(2)
  have tr: "trace k1 = trace k @ map (\<lambda>p. Setup (plugin_id p)) A"
    and "map fst (plugins k1) = map fst (plugins k) @ map plugin_id A"
    by (simp_all add: comp_def)
  with assms(2) have "plugin_id d \<in> fst ` set (plugins k1)"
    by (metis set_map)
  with tr stepPreset_no_throw[of d k1] assms(3) obtain k' where
    "stepPreset d k1 = (Some (PluginRegistered (plugin_id d)), k')"
    "trace k' = trace k1 @ [Setup (plugin_id d)]"
    by auto
  with a e tr show ?thesis
    by (simp add: stepPresets_append)
qed

lemma initPlugin_None:
  assumes "initPlugin p k = (None, k')"
  shows "trace k' = trace k @ [Setup (plugin_id p)]"
    "plugins k' = plugins k @ [(plugin_id p, p)]"
    "extraPlugins k' = extraPlugins k"
  using assms
  by (auto simp: initPlugin_def registerPlugin_cases initPluginCtx_frame
      split: prod.splits option.splits if_splits
      dest: call_apply_frame(1) call_apply_frame(2) call_apply_frame(3))

lemma initPlugin_dup:
  "plugin_id p \<in> fst ` set (plugins k) \<Longrightarrow>
     initPlugin p k = (Some (PluginRegistered (plugin_id p)), initPluginCtx k)"
  by (simp add: initPlugin_def registerPlugin_cases initPluginCtx_frame)

lemma initPlugin_no_throw:
  assumes "no_throw p" and "plugin_id p \<notin> fst ` set (plugins k)"
  shows "\<exists>k'. initPlugin p k = (None, k')"
proof -
  let ?k1 = "(initPluginCtx k)\<lparr>plugins := plugins (initPluginCtx k) @ [(plugin_id p, p)]\<rparr>"
  obtain e k2 where c: "call_apply p ?k1 = (e, k2)" by (cases "call_apply p ?k1")
  from call_apply_frame(7)[OF c] assms(1) have "e = None" by (simp add: no_throw_def)
  with c assms(2) show ?thesis
    by (simp add: initPlugin_def registerPlugin_cases initPluginCtx_frame)
qed

lemma initPlugins_append:
  "initPlugins (xs @ ys) k =
     (case initPlugins xs k of (Some e, k1) \<Rightarrow> (Some e, k1) | (None, k1) \<Rightarrow> initPlugins ys k1)"
  by (induction xs arbitrary: k) (simp_all split: prod.splits option.splits)

lemma initPlugins_ok:
  "initPlugins L k = (None, k') \<Longrightarrow>
     trace k' = trace k @ map (\<lambda>p. Setup (plugin_id p)) L \<and>
     plugins k' = plugins k @ map (\<lambda>p. (plugin_id p, p)) L \<and>
     extraPlugins k' = extraPlugins k"
proof (induction L arbitrary: k)
  case Nil
  then show ?case by simp
next
  case (Cons p L)
  then obtain k1 where 1: "initPlugin p k = (None, k1)" and 2: "initPlugins L k1 = (None, k')"
    by (auto split: prod.splits option.splits)
  from initPlugin_None[OF 1] Cons.IH[OF 2] show ?case by simp
qed

lemma initPlugins_progress:
  "distinct (map fst (plugins k) @ map plugin_id L) \<Longrightarrow> \<forall>p\<in>set L. no_throw p \<Longrightarrow>
     fst (initPlugins L k) = None"
proof (induction L arbitrary: k)
  case Nil
  then show ?case by simp
next
  case (Cons p L)
  from Cons.prems have np: "no_throw p" and nin: "plugin_id p \<notin> fst ` set (plugins k)"
    by auto
  from initPlugin_no_throw[OF np nin] obtain k1 where 1: "initPlugin p k = (None, k1)"
    by auto
  from initPlugin_None(2)[OF 1] Cons.prems(1)
  have "distinct (map fst (plugins k1) @ map plugin_id L)" by auto
  with Cons.IH[of k1] Cons.prems(2) 1 show ?case by simp
qed

lemma initPlugins_dup:
  assumes "distinct (map fst (plugins k) @ map plugin_id A)"
      and "plugin_id d \<in> set (map fst (plugins k) @ map plugin_id A)"
      and "\<forall>p\<in>set A. no_throw p"
  shows "\<exists>k'. initPlugins (A @ d # B) k = (Some (PluginRegistered (plugin_id d)), k') \<and>
              trace k' = trace k @ map (\<lambda>p. Setup (plugin_id p)) A"
proof -
  obtain e k1 where a: "initPlugins A k = (e, k1)" by (cases "initPlugins A k")
  with initPlugins_progress[OF assms(1)] assms(3) have e: "e = None" by auto
  from initPlugins_ok[OF a[unfolded e]] assms(2)
  have tr: "trace k1 = trace k @ map (\<lambda>p. Setup (plugin_id p)) A"
    and "map fst (plugins k1) = map fst (plugins k) @ map plugin_id A"
    by (simp_all add: comp_def)
  with assms(2) have "plugin_id d \<in> fst ` set (plugins k1)"
    by (metis set_map)
  with tr initPlugin_dup[of d k1] a e show ?thesis
    by (simp add: initPlugins_append initPluginCtx_frame)
qed


text \<open>The same for the recursion over the tree.\<close>

lemma preorders_append: "preorders (xs @ ys) = preorders xs @ preorders ys"
  by (induction xs) simp_all

lemma deferreds_append: "deferreds (xs @ ys) = deferreds xs @ deferreds ys"
  by (induction xs) simp_all

lemma initPresets_ok:
  assumes "initPresets ps k = (None, k')"
  shows "trace k' = trace k @ map (\<lambda>p. Setup (plugin_id p)) (preorders ps)"
    "plugins k' = plugins k @ map (\<lambda>p. (plugin_id p, p)) (preorders ps)"
    "extraPlugins k' = extraPlugins k @ deferreds ps"
proof -
  obtain e k0 where s: "stepPresets (preorders ps) k = (e, k0)"
    by (cases "stepPresets (preorders ps) k")
  from initPresets_flat[of ps k] s assms have e: "e = None"
    and k': "k' = k0\<lparr>extraPlugins := extraPlugins k @ deferreds ps\<rparr>"
    by auto
  from stepPresets_ok[OF s[unfolded e]] k'
  show "trace k' = trace k @ map (\<lambda>p. Setup (plugin_id p)) (preorders ps)"
    "plugins k' = plugins k @ map (\<lambda>p. (plugin_id p, p)) (preorders ps)"
    "extraPlugins k' = extraPlugins k @ deferreds ps"
    by simp_all
qed

lemma initPresets_progress:
  assumes "distinct (map fst (plugins k) @ map plugin_id (preorders ps))"
      and "\<forall>p\<in>set (preorders ps). no_throw p"
  shows "\<exists>k'. initPresets ps k = (None, k')"
proof -
  obtain e k0 where s: "stepPresets (preorders ps) k = (e, k0)"
    by (cases "stepPresets (preorders ps) k")
  with stepPresets_progress[OF assms] have "e = None" by simp
  with initPresets_flat[of ps k] s show ?thesis by auto
qed

lemma initPresets_dup:
  assumes "preorders ps = A @ d # B"
      and "distinct (map fst (plugins k) @ map plugin_id A)"
      and "plugin_id d \<in> set (map fst (plugins k) @ map plugin_id A)"
      and "\<forall>p\<in>set (A @ [d]). no_throw p"
  shows "\<exists>k'. initPresets ps k = (Some (PluginRegistered (plugin_id d)), k') \<and>
              trace k' = trace k @ map (\<lambda>p. Setup (plugin_id p)) (A @ [d])"
proof -
  from stepPresets_dup[OF assms(2-4), of B] obtain k0 where
    "stepPresets (preorders ps) k = (Some (PluginRegistered (plugin_id d)), k0)"
    "trace k0 = trace k @ map (\<lambda>p. Setup (plugin_id p)) (A @ [d])"
    unfolding assms(1) by blast
  with initPresets_flat[of ps k] show ?thesis by auto
qed

lemma split_left: "xs @ ys = A @ d # B \<Longrightarrow> length A < length xs \<Longrightarrow> \<exists>B1. xs = A @ d # B1"
  by (auto simp: append_eq_append_conv2 append_eq_Cons_conv)

lemma split_right:
  "xs @ ys = A @ d # B \<Longrightarrow> \<not> length A < length xs \<Longrightarrow> \<exists>A2. A = xs @ A2 \<and> ys = A2 @ d # B"
  by (auto simp: append_eq_append_conv2 append_eq_Cons_conv)

section \<open>Claims about the resolution\<close>

text \<open>
  What the resolution does at a repeated id.  Take the items in the order they are
  initialised (the presets depth-first, then the plugins declared by presets, then the
  top-level plugins), and let \<open>d\<close> be the first item whose id is the id of an earlier
  item, \<open>A\<close> the items before it and \<open>B\<close> the items after it, no setup function up to
  \<open>d\<close> throwing.  Then \<^verbatim>\<open>initPresetsAndPlugins\<close> fails with the error of
  \<^verbatim>\<open>registerPlugin\<close> for the id of \<open>d\<close>; the setup functions of the items of \<open>A\<close> have
  run and no item of \<open>B\<close> is initialised.  The setup function of \<open>d\<close> itself has not
  run when \<open>d\<close> is a plugin, and has run when \<open>d\<close> is a preset.
\<close>

lemma duplicate_id_aborts:
  assumes cp: "get_prop (initialConfig k) ''presets'' = Inr cp"
      and cq: "get_prop (initialConfig k) ''plugins'' = Inr cq"
      and ps: "ps = resolvePresetsOrPlugins X
                 (mergePlugins X (or_else (optsPresets k) (Arr [])) (or_else cp (Arr [])) Preset)
                 Preset"
      and qs: "qs = resolvePresetsOrPlugins X
                 (mergePlugins X (or_else (optsPlugins k) (Arr [])) (or_else cq (Arr [])) Plugin)
                 Plugin"
      and sp: "preorders ps @ deferreds ps @ qs = A @ d # B"
      and di: "distinct (map plugin_id A)"
      and du: "plugin_id d \<in> plugin_id ` set A"
      and nt: "\<forall>p\<in>set (A @ [d]). \<forall>r. fst (apply_fn p r) = None"
  shows "\<exists>k'. initPresetsAndPlugins X k = (Some (PluginRegistered (plugin_id d)), k') \<and>
              trace k' = trace k @ map (\<lambda>p. Setup (plugin_id p))
                                     (if length A < length (preorders ps) then A @ [d] else A)"
proof -
  let ?k0 = "k\<lparr>plugins := [], extraPlugins := []\<rparr>"
  have unfold: "initPresetsAndPlugins X k =
      (case initPresets ps ?k0 of
         (Some e, k1) \<Rightarrow> (Some e, k1)
       | (None, k1) \<Rightarrow> resolvePlugins X
           (mergePlugins X (or_else (optsPlugins k) (Arr [])) (or_else cq (Arr [])) Plugin) k1)"
    by (simp add: initPresetsAndPlugins_def cp cq ps resolvePresets_def)
  have nt': "\<forall>p\<in>set (A @ [d]). no_throw p" using nt by (simp add: no_throw_def)
  show ?thesis
  proof (cases "length A < length (preorders ps)")
    case True
    from split_left[OF sp True] obtain B1 where pre: "preorders ps = A @ d # B1" ..
    have "\<exists>k'. initPresets ps ?k0 = (Some (PluginRegistered (plugin_id d)), k') \<and>
              trace k' = trace ?k0 @ map (\<lambda>p. Setup (plugin_id p)) (A @ [d])"
      by (rule initPresets_dup[OF pre]) (use di du nt' in simp_all)
    then show ?thesis using True by (auto simp: unfold)
  next
    case False
    from split_right[OF sp False] obtain A2 where A: "A = preorders ps @ A2"
      and rest: "deferreds ps @ qs = A2 @ d # B" by blast
    have "\<exists>k1. initPresets ps ?k0 = (None, k1)"
      by (rule initPresets_progress) (use di nt' A in simp_all)
    then obtain k1 where i: "initPresets ps ?k0 = (None, k1)" ..
    from initPresets_ok[OF i]
    have t1: "trace k1 = trace k @ map (\<lambda>p. Setup (plugin_id p)) (preorders ps)"
      and p1: "map fst (plugins k1) = map plugin_id (preorders ps)"
      and x1: "extraPlugins k1 = deferreds ps"
      by (simp_all add: comp_def)
    have "\<exists>k'. initPlugins (A2 @ d # B) k1 = (Some (PluginRegistered (plugin_id d)), k') \<and>
              trace k' = trace k1 @ map (\<lambda>p. Setup (plugin_id p)) A2"
      by (rule initPlugins_dup) (use di du nt' A p1 in auto)
    then show ?thesis using False i t1 x1 rest qs A
      by (auto simp: unfold resolvePlugins_def)
  qed
qed

text \<open>
  The preset \<open>a\<close> declares the plugin \<open>r\<close>, and a top-level plugin resolves to \<open>r\<close> too:
  the resolution fails at the second \<open>r\<close>, whose setup function has not run.
\<close>

lemma duplicate_id_aborts_example:
  "get_prop (initialConfig ex_loaded) ''presets'' = Inr Undefined \<and>
   get_prop (initialConfig ex_loaded) ''plugins'' = Inr Undefined \<and>
   preorders [ex_item ''a'' (\<lambda>r. r) None (Some [ex_leaf ''r''])] @
     deferreds [ex_item ''a'' (\<lambda>r. r) None (Some [ex_leaf ''r''])] @ [ex_leaf ''r'']
     = [ex_item ''a'' (\<lambda>r. r) None (Some [ex_leaf ''r'']), ex_leaf ''r''] @ ex_leaf ''r'' # [] \<and>
   (\<exists>k'. initPresetsAndPlugins ex_X_dup_plugin ex_loaded = (Some (PluginRegistered ''r''), k') \<and>
         trace k' = [Setup ''a'', Setup ''r''])"
proof -
  let ?a = "ex_item ''a'' (\<lambda>r. r) None (Some [ex_leaf ''r''])"
  have cp: "get_prop (initialConfig ex_loaded) ''presets'' = Inr Undefined"
    and cq: "get_prop (initialConfig ex_loaded) ''plugins'' = Inr Undefined"
    by (simp_all add: ex_X_dup_plugin_def ex_loaded_def ex_item_def ex_leaf_def ex_config_def
        ex_ext_def ex_new_def constructor_def)
  have ps: "[?a] = resolvePresetsOrPlugins ex_X_dup_plugin
                 (mergePlugins ex_X_dup_plugin (or_else (optsPresets ex_loaded) (Arr []))
                    (or_else Undefined (Arr [])) Preset) Preset"
    and qs: "[ex_leaf ''r''] = resolvePresetsOrPlugins ex_X_dup_plugin
                 (mergePlugins ex_X_dup_plugin (or_else (optsPlugins ex_loaded) (Arr []))
                    (or_else Undefined (Arr [])) Plugin) Plugin"
    by (simp_all add: ex_X_dup_plugin_def ex_ext_def)
  have sp: "preorders [?a] @ deferreds [?a] @ [ex_leaf ''r''] = [?a, ex_leaf ''r''] @ ex_leaf ''r'' # []"
    by (simp add: ex_item_def ex_leaf_def)
  have di: "distinct (map plugin_id [?a, ex_leaf ''r''])"
    and du: "plugin_id (ex_leaf ''r'') \<in> plugin_id ` set [?a, ex_leaf ''r'']"
    and nt: "\<forall>p\<in>set ([?a, ex_leaf ''r''] @ [ex_leaf ''r'']). \<forall>r. fst (apply_fn p r) = None"
    by (simp_all add: ex_item_def ex_leaf_def)
  from duplicate_id_aborts[OF cp cq ps qs sp di du nt]
  have "\<exists>k'. initPresetsAndPlugins ex_X_dup_plugin ex_loaded = (Some (PluginRegistered ''r''), k') \<and>
         trace k' = [Setup ''a'', Setup ''r'']"
    by (simp add: ex_X_dup_plugin_def ex_loaded_def ex_item_def ex_leaf_def ex_config_def
        ex_ext_def ex_new_def constructor_def)
  with cp cq sp show ?thesis by blast
qed

text \<open>
  Claim C1.  For every sequence of declarations with two items that resolve to the same
  id, resolution fails before the setup function of the second item executes and before
  any later item initialises.  \<^verbatim>\<open>initPlugin\<close> does so: it calls \<^verbatim>\<open>registerPlugin\<close> (line 141)
  before the setup function (line 142).  \<^verbatim>\<open>initPreset\<close> calls the setup function (line 125)
  before \<^verbatim>\<open>registerPlugin\<close> (line 126).  The presets \<open>a\<close> and \<open>b\<close> are declared, and \<open>b\<close>
  declares a nested preset that resolves to \<open>a\<close> again: resolution fails with the error of
  \<^verbatim>\<open>registerPlugin\<close>, and the setup function of the second \<open>a\<close> has run by then.
\<close>

theorem duplicate_preset_setup_runs:
  "fst (initPresetsAndPlugins ex_X_dup_preset ex_loaded) = Some (PluginRegistered ''a'') \<and>
   trace (snd (initPresetsAndPlugins ex_X_dup_preset ex_loaded))
     = [Setup ''a'', Setup ''b'', Setup ''a'']"
  by (simp add: ex_X_dup_preset_def ex_loaded_def ex_item_def ex_leaf_def ex_config_def ex_ext_def
      ex_new_def constructor_def initPresetsAndPlugins_def or_else_def Let_def resolvePresets_def
      resolvePlugins_def initPlugin_def registerPlugin_def initPluginCtx_def registerMethod_def
      call_apply_def regs.truncate_def)

text \<open>
  Claim C8.  Let a preset \<open>P\<close> declare the nested presets \<open>Qs\<close> and the nested plugins
  \<open>Rs\<close>, with the presets \<open>pre\<close> before it and \<open>post\<close> after it in the queue.  When
  \<^verbatim>\<open>resolvePresets\<close> and then \<^verbatim>\<open>resolvePlugins\<close> return, the setup functions have run in
  this order: the presets of \<open>pre\<close>, then \<open>P\<close>, then \<open>Qs\<close> with all they nest
  (depth-first, in the turn of \<open>P\<close>), then the presets of \<open>post\<close>; after all the presets
  the plugins of the side queue, those of \<open>Rs\<close> among them; and last the top-level
  plugins.
\<close>

theorem preset_expansion_order:
  assumes "resolvePresetsOrPlugins X presets Preset = pre @ P # post"
      and "sub_presets P = Some Qs" and "sub_plugins P = Some Rs"
      and "resolvePresets X presets k = (None, k1)"
      and "resolvePlugins X plugins' k1 = (None, k2)"
  shows "trace k2 = trace k @ map (\<lambda>p. Setup (plugin_id p))
           (preorders pre @ [P] @ preorders Qs @ preorders post @
            extraPlugins k @ deferreds pre @ deferreds Qs @ Rs @ deferreds post @
            resolvePresetsOrPlugins X plugins' Plugin)"
proof -
  have P: "preorder P = P # preorders Qs" "deferred P = deferreds Qs @ Rs"
    using assms(2,3) by (cases P; simp)+
  from assms(4) have i: "initPresets (pre @ P # post) k = (None, k1)"
    by (simp add: resolvePresets_def assms(1))
  from initPresets_ok(1,3)[OF i]
  have 1: "trace k1 = trace k @ map (\<lambda>p. Setup (plugin_id p))
             (preorders pre @ [P] @ preorders Qs @ preorders post)"
    and 2: "extraPlugins k1 = extraPlugins k @ deferreds pre @ deferreds Qs @ Rs @ deferreds post"
    by (simp_all add: preorders_append deferreds_append P)
  from assms(5) obtain k' where
    "initPlugins (extraPlugins k1 @ resolvePresetsOrPlugins X plugins' Plugin) k1 = (None, k')"
    and "k2 = k'\<lparr>extraPlugins := []\<rparr>"
    by (auto simp: resolvePlugins_def split: prod.splits option.splits)
  with initPlugins_ok[of _ k1 k'] 1 2 show ?thesis by simp
qed

text \<open>
  The preset \<open>P\<close> declares the preset \<open>Q\<close> and the plugin \<open>R\<close>; \<open>S\<close> is the next preset
  and \<open>T\<close> a top-level plugin.  The setup functions run in the order \<open>P, Q, S, R, T\<close>.
\<close>

theorem preset_expansion_order_witness:
  "resolvePresetsOrPlugins ex_X_nested Undefined Preset = [] @ ex_P # [ex_leaf ''S''] \<and>
   sub_presets ex_P = Some [ex_leaf ''Q''] \<and> sub_plugins ex_P = Some [ex_leaf ''R''] \<and>
   resolvePresets ex_X_nested Undefined ex_loaded = (None, ex_presets_done) \<and>
   fst (resolvePlugins ex_X_nested Undefined ex_presets_done) = None \<and>
   trace (snd (resolvePlugins ex_X_nested Undefined ex_presets_done))
     = [Setup ''P'', Setup ''Q'', Setup ''S'', Setup ''R'', Setup ''T'']"
proof -
  have r: "resolvePresetsOrPlugins ex_X_nested Undefined Preset = [] @ ex_P # [ex_leaf ''S'']"
    by (simp add: ex_X_nested_def ex_ext_def)
  have s: "sub_presets ex_P = Some [ex_leaf ''Q'']" "sub_plugins ex_P = Some [ex_leaf ''R'']"
    by (simp_all add: ex_P_def ex_item_def)
  have "fst (resolvePresets ex_X_nested Undefined ex_loaded) = None"
    by (simp add: ex_X_nested_def ex_P_def ex_presets_done_def ex_loaded_def ex_item_def
        ex_leaf_def ex_config_def ex_ext_def ex_new_def constructor_def resolvePresets_def
        resolvePlugins_def initPlugin_def registerPlugin_def initPluginCtx_def registerMethod_def
        call_apply_def regs.truncate_def)
  then have 1: "resolvePresets ex_X_nested Undefined ex_loaded = (None, ex_presets_done)"
    by (simp add: ex_presets_done_def prod_eq_iff)
  have f2: "fst (resolvePlugins ex_X_nested Undefined ex_presets_done) = None"
    by (simp add: ex_X_nested_def ex_P_def ex_presets_done_def ex_loaded_def ex_item_def
        ex_leaf_def ex_config_def ex_ext_def ex_new_def constructor_def resolvePresets_def
        resolvePlugins_def initPlugin_def registerPlugin_def initPluginCtx_def registerMethod_def
        call_apply_def regs.truncate_def)
  then have 2: "resolvePlugins ex_X_nested Undefined ex_presets_done =
                  (None, snd (resolvePlugins ex_X_nested Undefined ex_presets_done))"
    by (simp add: prod_eq_iff)
  from preset_expansion_order[OF r s 1 2]
  have "trace (snd (resolvePlugins ex_X_nested Undefined ex_presets_done))
          = [Setup ''P'', Setup ''Q'', Setup ''S'', Setup ''R'', Setup ''T'']"
    by (simp add: ex_X_nested_def ex_P_def ex_presets_done_def ex_loaded_def ex_item_def
        ex_leaf_def ex_config_def ex_ext_def ex_new_def constructor_def)
  with r s 1 f2 show ?thesis by blast
qed

text \<open>
  Claim C9.  When \<^verbatim>\<open>resolvePlugins\<close> returns, \<^verbatim>\<open>extraPlugins\<close> is empty, and every plugin
  that was queued there has been initialised, ahead of the plugins that \<^verbatim>\<open>resolvePlugins\<close>
  was given.
\<close>

theorem extraPlugins_drained:
  "resolvePlugins X plugins' k = (None, k') \<Longrightarrow>
     extraPlugins k' = [] \<and>
     trace k' = trace k @ map (\<lambda>p. Setup (plugin_id p))
                            (extraPlugins k @ resolvePresetsOrPlugins X plugins' Plugin)"
  by (auto simp: resolvePlugins_def split: prod.splits option.splits dest: initPlugins_ok)

text \<open>After the presets \<open>P\<close>, \<open>Q\<close>, \<open>S\<close> the queue holds \<open>R\<close>; \<^verbatim>\<open>resolvePlugins\<close> empties it.\<close>

theorem extraPlugins_drained_witness:
  "extraPlugins ex_presets_done = [ex_leaf ''R''] \<and>
   fst (resolvePlugins ex_X_nested Undefined ex_presets_done) = None \<and>
   extraPlugins (snd (resolvePlugins ex_X_nested Undefined ex_presets_done)) = [] \<and>
   trace (snd (resolvePlugins ex_X_nested Undefined ex_presets_done)) =
     trace ex_presets_done @ map (\<lambda>p. Setup (plugin_id p))
       (extraPlugins ex_presets_done @ resolvePresetsOrPlugins ex_X_nested Undefined Plugin)"
proof -
  have x: "extraPlugins ex_presets_done = [ex_leaf ''R'']"
    by (simp add: ex_X_nested_def ex_P_def ex_presets_done_def ex_loaded_def ex_item_def
        ex_leaf_def ex_config_def ex_ext_def ex_new_def constructor_def resolvePresets_def
        resolvePlugins_def initPlugin_def registerPlugin_def initPluginCtx_def registerMethod_def
        call_apply_def regs.truncate_def)
  have f: "fst (resolvePlugins ex_X_nested Undefined ex_presets_done) = None"
    by (simp add: ex_X_nested_def ex_P_def ex_presets_done_def ex_loaded_def ex_item_def
        ex_leaf_def ex_config_def ex_ext_def ex_new_def constructor_def resolvePresets_def
        resolvePlugins_def initPlugin_def registerPlugin_def initPluginCtx_def registerMethod_def
        call_apply_def regs.truncate_def)
  then have 2: "resolvePlugins ex_X_nested Undefined ex_presets_done =
                  (None, snd (resolvePlugins ex_X_nested Undefined ex_presets_done))"
    by (simp add: prod_eq_iff)
  from extraPlugins_drained[OF 2] x f show ?thesis by blast
qed

section \<open>Properties of init and run\<close>




lemma settings_upd [simp]:
  "settings (k\<lparr>trace := t\<rparr>) = settings k"
  "settings (k\<lparr>plugins := ps\<rparr>) = settings k"
  "settings (k\<lparr>extraPlugins := x\<rparr>) = settings k"
  "settings (k\<lparr>paths := y\<rparr>) = settings k"
  "settings (k\<lparr>config := c\<rparr>) = settings k"
  by (simp_all add: settings_def)












lemma runWithPlatform_absent:
  "\<forall>s. p = Str s \<longrightarrow> platforms k s = None \<Longrightarrow> runWithPlatform p k = Inl (PlatformNotFound p)"
  by (cases p) (simp_all add: runWithPlatform_def)

section \<open>Claims about init and run\<close>




text \<open>
  Claim C7.  Let \<^verbatim>\<open>opts.platform\<close> be set (truthy) to a value \<open>p\<close> that is no key of the
  platform registry as \<^verbatim>\<open>init\<close> leaves it.  Then \<^verbatim>\<open>run({ name, opts })\<close> fails for every
  \<open>name\<close>, registered as a command or not, and the kernel is left as \<^verbatim>\<open>init\<close> or the
  \<^verbatim>\<open>onStart\<close> chain left it: the chain of the command is never dispatched.  When \<^verbatim>\<open>init\<close>
  and \<^verbatim>\<open>onStart\<close> succeed, the failure is that of the unknown platform for a registered
  command and that of the unknown command otherwise.
\<close>

theorem unknown_platform_fails:
  assumes "get_prop opts ''platform'' = Inr p" and "truthy p"
      and "\<forall>s. p = Str s \<longrightarrow> platforms (snd (init X k)) s = None"
  shows "(\<exists>e. fst (run X (RunObj n opts) k) = Some e) \<and>
         (snd (run X (RunObj n opts) k) = snd (init X k) \<or>
          snd (run X (RunObj n opts) k) = snd (applyPlugins (ArgName ''onStart'') (snd (init X k)))) \<and>
         (\<forall>k1 v k2. init X k = (None, k1) \<longrightarrow> applyPlugins (ArgName ''onStart'') k1 = (Inr v, k2) \<longrightarrow>
            run X (RunObj n opts) k =
              (Some (if commands_has k2 n then PlatformNotFound p else CommandNotFound n), k2))"
proof -
  obtain e k1 where i: "init X k = (e, k1)" by (cases "init X k")
  obtain r k2 where a: "applyPlugins (ArgName ''onStart'') k1 = (r, k2)"
    by (cases "applyPlugins (ArgName ''onStart'') k1")
  show ?thesis
  proof (cases e)
    case (Some err)
    with i show ?thesis by (simp add: run_def)
  next
    case None
    from assms(3) i applyPlugins_platforms[OF a]
    have "\<forall>s. p = Str s \<longrightarrow> platforms k2 s = None" by simp
    then have rw: "runWithPlatform p k2 = Inl (PlatformNotFound p)"
      by (rule runWithPlatform_absent)
    show ?thesis
      using None i a rw assms(1,2) by (cases r) (simp_all add: run_def)
  qed
qed

text \<open>
  The command \<^verbatim>\<open>build\<close> is registered and no platform is: \<^verbatim>\<open>run\<close> with the platform
  \<^verbatim>\<open>weapp\<close> fails, and the handler of \<^verbatim>\<open>build\<close> is not called.
\<close>

theorem unknown_platform_fails_witness:
  "get_prop (Obj [(''platform'', Str ''weapp'')]) ''platform'' = Inr (Str ''weapp'') \<and>
   truthy (Str ''weapp'') \<and>
   platforms (snd (init ex_X_build ex_new)) ''weapp'' = None \<and>
   commands_has ex_built (Str ''build'') \<and>
   fst (run ex_X_build (RunObj (Str ''build'') (Obj [(''platform'', Str ''weapp'')])) ex_new)
     = Some (PlatformNotFound (Str ''weapp'')) \<and>
   called (trace (snd (run ex_X_build (RunObj (Str ''build'') (Obj [(''platform'', Str ''weapp'')]))
                         ex_new))) = []"
proof -
  let ?opts = "Obj [(''platform'', Str ''weapp'')]"
  have 1: "get_prop ?opts ''platform'' = Inr (Str ''weapp'')" and 2: "truthy (Str ''weapp'')"
    by simp_all
  have 3: "\<forall>s. Str ''weapp'' = Str s \<longrightarrow> platforms (snd (init ex_X_build ex_new)) s = None"
    by (simp add: ex_X_build_def ex_built_def ex_build_def registerCommand_def addHook_def
        ex_item_def ex_config_def ex_ext_def ex_new_def constructor_def run_def
        runWithPlatform_def commands_has_def init_def initConfig_def initPaths_def
        initPresetsAndPlugins_def or_else_def Let_def resolvePresets_def resolvePlugins_def
        initPlugin_def registerPlugin_def initPluginCtx_def registerMethod_def call_apply_def
        regs.truncate_def applyPlugins_def hooks_get_def taps_of_def tapPromise_def tap_of_def
        callback_def)
  have c: "commands_has ex_built (Str ''build'')"
    by (simp add: ex_X_build_def ex_built_def ex_build_def registerCommand_def addHook_def
        ex_item_def ex_config_def ex_ext_def ex_new_def constructor_def run_def
        runWithPlatform_def commands_has_def init_def initConfig_def initPaths_def
        initPresetsAndPlugins_def or_else_def Let_def resolvePresets_def resolvePlugins_def
        initPlugin_def registerPlugin_def initPluginCtx_def registerMethod_def call_apply_def
        regs.truncate_def applyPlugins_def hooks_get_def taps_of_def tapPromise_def tap_of_def
        callback_def)
  have i: "init ex_X_build ex_new = (None, ex_built)"
    and s: "applyPlugins (ArgName ''onStart'') ex_built = (Inr Undefined, ex_built)"
    and t: "called (trace ex_built) = []"
    by (simp_all add: ex_X_build_def ex_built_def ex_build_def registerCommand_def addHook_def
        ex_item_def ex_config_def ex_ext_def ex_new_def constructor_def run_def
        runWithPlatform_def commands_has_def init_def initConfig_def initPaths_def
        initPresetsAndPlugins_def or_else_def Let_def resolvePresets_def resolvePlugins_def
        initPlugin_def registerPlugin_def initPluginCtx_def registerMethod_def call_apply_def
        regs.truncate_def applyPlugins_def hooks_get_def taps_of_def tapPromise_def tap_of_def
        callback_def)
  from unknown_platform_fails[OF 1 2 3, of "Str ''build''"] i s c
  have "run ex_X_build (RunObj (Str ''build'') ?opts) ex_new
          = (Some (PlatformNotFound (Str ''weapp'')), ex_built)"
    by simp
  moreover have "platforms (snd (init ex_X_build ex_new)) ''weapp'' = None" using 3 by simp
  ultimately show ?thesis using 1 2 c t by simp
qed

text \<open>
  Claim C10.  When \<^verbatim>\<open>run\<close> is called with a bare string, or with an object whose \<^verbatim>\<open>opts\<close>
  is \<^verbatim>\<open>undefined\<close>, it never succeeds; when \<^verbatim>\<open>init\<close> and the \<^verbatim>\<open>onStart\<close> chain succeed it
  fails, in the state the \<^verbatim>\<open>onStart\<close> chain left, with the \<^verbatim>\<open>TypeError\<close> of the read
  \<^verbatim>\<open>opts.platform\<close> for a registered command (and with the unknown-command error
  otherwise, the existence check coming first): the chain of the command is not
  dispatched.
\<close>

theorem run_without_opts_throws:
  assumes "args = RunName s \<and> n = Str s \<or> args = RunObj n Undefined"
  shows "fst (run X args k) \<noteq> None \<and>
         (\<forall>k1 v k2. init X k = (None, k1) \<longrightarrow> applyPlugins (ArgName ''onStart'') k1 = (Inr v, k2) \<longrightarrow>
            run X args k = (Some (if commands_has k2 n then TypeError else CommandNotFound n), k2))"
proof -
  obtain e k1 where i: "init X k = (e, k1)" by (cases "init X k")
  obtain r k2 where a: "applyPlugins (ArgName ''onStart'') k1 = (r, k2)"
    by (cases "applyPlugins (ArgName ''onStart'') k1")
  from assms i a show ?thesis
    by (cases e; cases r) (auto simp: run_def)
qed

text \<open>
  The command \<^verbatim>\<open>build\<close> is registered: \<^verbatim>\<open>run('build')\<close> fails with a \<^verbatim>\<open>TypeError\<close> and no
  handler has been called.
\<close>

theorem run_without_opts_throws_witness:
  "init ex_X_build ex_new = (None, ex_built) \<and>
   applyPlugins (ArgName ''onStart'') ex_built = (Inr Undefined, ex_built) \<and>
   commands_has ex_built (Str ''build'') \<and>
   run ex_X_build (RunName ''build'') ex_new = (Some TypeError, ex_built) \<and>
   called (trace ex_built) = []"
proof -
  have i: "init ex_X_build ex_new = (None, ex_built)"
    and s: "applyPlugins (ArgName ''onStart'') ex_built = (Inr Undefined, ex_built)"
    and c: "commands_has ex_built (Str ''build'')"
    and t: "called (trace ex_built) = []"
    by (simp_all add: ex_X_build_def ex_built_def ex_build_def registerCommand_def addHook_def
        ex_item_def ex_config_def ex_ext_def ex_new_def constructor_def run_def
        runWithPlatform_def commands_has_def init_def initConfig_def initPaths_def
        initPresetsAndPlugins_def or_else_def Let_def resolvePresets_def resolvePlugins_def
        initPlugin_def registerPlugin_def initPluginCtx_def registerMethod_def call_apply_def
        regs.truncate_def applyPlugins_def hooks_get_def taps_of_def tapPromise_def tap_of_def
        callback_def)
  have "RunName ''build'' = RunName ''build'' \<and> Str ''build'' = Str ''build'' \<or>
        RunName ''build'' = RunObj (Str ''build'') Undefined"
    by simp
  from run_without_opts_throws[OF this, of ex_X_build ex_new] i s c
  have "run ex_X_build (RunName ''build'') ex_new = (Some TypeError, ex_built)" by simp
  with i s c t show ?thesis by simp
qed

text \<open>With an \<^verbatim>\<open>opts\<close> object and no platform the same command is dispatched and its handler called.\<close>

lemma run_dispatches_example:
  "fst (run ex_X_build (RunObj (Str ''build'') (Obj [])) ex_new) = None \<and>
   called (trace (snd (run ex_X_build (RunObj (Str ''build'') (Obj [])) ex_new))) = [ex_build]"
  by (simp add: ex_X_build_def ex_built_def ex_build_def registerCommand_def addHook_def
      ex_item_def ex_config_def ex_ext_def ex_new_def constructor_def run_def runWithPlatform_def
      commands_has_def init_def initConfig_def initPaths_def initPresetsAndPlugins_def or_else_def
      Let_def resolvePresets_def resolvePlugins_def initPlugin_def registerPlugin_def
      initPluginCtx_def registerMethod_def call_apply_def regs.truncate_def applyPlugins_def
      hooks_get_def taps_of_def tapPromise_def tap_of_def callback_def)

end
